theory Spec2Isabelle
  imports Complex_Main
begin

section \<open>Values, errors and data containers\<close>

text \<open>
  Exceptions of the Python source are values. A finite float is modelled by the real it
  denotes; the floats \<open>inf\<close>, \<open>-inf\<close> and \<open>nan\<close> are values of their own where the argument
  of \<open>run\<close> is converted. An array is a list (one axis) or a list of rows (two axes).
\<close>

datatype error =
    ValueError string
  | TypeError string
  | IndexError
  | KeyError
  | AttributeError
  | SyntaxError
  | OverflowError string

datatype pyval = Num real | Arr1 "real list" | Arr2 "real list list"

text \<open>\<open>Sim_data.data\<close> is created as an empty dict (\<open>self.data = {}\<close>) and is later
  either filled per trial index or rebound to a single value.\<close>

datatype payload = Dict "int \<Rightarrow> pyval option" | Val pyval

definition lower :: "string \<Rightarrow> string" where
  "lower = map (\<lambda>c. if c \<in> set ''ABCDEFGHIJKLMNOPQRSTUVWXYZ''
                       then char_of (of_char c + (32::nat)) else c)"

definition np_sqrt :: "pyval \<Rightarrow> pyval" where
  "np_sqrt v = (case v of Num x \<Rightarrow> Num (sqrt x)
                | Arr1 xs \<Rightarrow> Arr1 (map sqrt xs)
                | Arr2 m \<Rightarrow> Arr2 (map (map sqrt) m))"

record sim_data =
  name :: string
  description :: string
  plottable :: bool
  logx :: bool
  logy :: bool
  grid :: string
  legend :: "string list option"
  pre_func :: "(pyval \<Rightarrow> pyval) option"
  data :: payload

text \<open>\<open>Sim_data.__init__(name, description, plottable, logx, logy, grid, legend, pre_func)\<close>.\<close>

definition Sim_data_init ::
  "string \<Rightarrow> string \<Rightarrow> bool \<Rightarrow> bool \<Rightarrow> bool \<Rightarrow> string \<Rightarrow> string list option
     \<Rightarrow> (pyval \<Rightarrow> pyval) option \<Rightarrow> sim_data" where
  "Sim_data_init nm desc pl lx ly gr lg pf =
     \<lparr>name = nm, description = desc, plottable = pl, logx = lx, logy = ly,
      grid = (if lower gr = ''off'' then gr else ''on''),
      legend = lg, pre_func = pf, data = Dict Map.empty\<rparr>"

section \<open>The simulation object\<close>

text \<open>The IMU configuration object: only the attributes that \<open>Sim\<close> reads. The error
  models are opaque to \<open>Sim\<close>; they are handed to the generators unchanged.\<close>

record 'e imu_model =
  gps :: bool
  magnetometer :: bool
  accel_err :: 'e
  gyro_err :: 'e
  gps_err :: 'e
  mag_err :: 'e

text \<open>The algorithm plug-in: its declared names (\<open>input\<close> and \<open>output\<close> in the source) and
  its two methods \<open>run\<close> and \<open>get_results\<close>. The type \<open>'w\<close> is
  the hidden state of everything outside \<open>Sim\<close> (the estimator's own state, the random
  number generator of the sensor models).\<close>

record 'w algorithm =
  input_names :: "string list"
  output_names :: "string list"
  algo_run :: "payload list \<Rightarrow> 'w \<Rightarrow> error option \<times> 'w"
  get_results :: "'w \<Rightarrow> (error + pyval list) \<times> 'w"

text \<open>A dictionary key of the three \<open>supported_*\<close> dicts is either a string or a
  \<open>Sim_data\<close> object (hashed by identity; the object is identified by the attribute of
  \<open>self\<close> that holds it).\<close>

datatype key = Name string | Obj string

type_synonym registry = "key \<Rightarrow> string option"

text \<open>The text of \<open>algo_in_expr\<close> and \<open>algo_out_expr\<close>, as a list of lexical pieces:
  \<open>'['\<close>, \<open>'self.' + i + '.data' + ', '\<close>, \<open>'self.' + i + '.data[NO_OF_SIM]' + ', '\<close>
  and \<open>']'\<close>.\<close>

datatype token = LBracket | RBracket | Self_data string | Self_data_at string

text \<open>An argument that the source inspects with \<open>isinstance\<close>.\<close>

datatype pyarg = Str string | Ndarray pyval | Other

record ('w, 'e) sim =
  sim_complete :: bool
  sim_count :: int
  imu :: "'e imu_model"
  objs :: "string \<Rightarrow> sim_data option"
  supported_in_constant :: registry
  supported_in_varying :: registry
  supported_out :: registry
  res :: registry
  supported_plot :: registry
  ini_pos_n :: "real list"
  ini_vel_b :: "real list"
  ini_att :: "real list"
  motion_def :: "real list list"
  output_def :: "real list list"
  mobility :: pyval
  vib_def :: "real list list option"
  algo :: "'w algorithm option"
  algo_in_expr :: "token list"
  algo_out_expr :: "token list"

text \<open>The field \<open>objs\<close> holds the 24 attributes of \<open>self\<close> that are \<open>Sim_data\<close>
  objects, by attribute name. A static attribute read \<open>self.x\<close> is \<open>attr o ''x''\<close>.\<close>

definition attr :: "(string \<Rightarrow> sim_data option) \<Rightarrow> string \<Rightarrow> sim_data" where
  "attr self n = the (self n)"

definition D2R :: real where
  "D2R = pi / 180"

definition high_mobility :: pyval where
  "high_mobility = Arr1 [1.0, 0.5, 2.0]"

subsection \<open>Construction\<close>

text \<open>Lines 55 to 110 of \<open>Sim.__init__\<close>: the data containers.\<close>

definition new_containers :: "real \<Rightarrow> (string \<Rightarrow> sim_data option)" where
  "new_containers fs0 = map_of
    [(''fs'', (Sim_data_init ''fs'' ''sample frequency of imu'' False False False ''on'' None None)
                \<lparr>data := Val (Num fs0)\<rparr>),
     (''ref_frame'', (Sim_data_init ''ref_frame'' ''reference frame'' False False False ''on'' None None)
                \<lparr>data := Val (Num 0)\<rparr>),
     (''time'', Sim_data_init ''time'' ''sample time, start from 1'' True False False ''on'' None None),
     (''gps_time'', Sim_data_init ''gps_time'' ''GPS sample time'' True False False ''on'' None None),
     (''ref_pos'', Sim_data_init ''ref_pos'' ''true pos'' True False False ''on''
                (Some [''ref_pos_x'', ''ref_pos_y'', ''ref_pos_z'']) None),
     (''ref_vel'', Sim_data_init ''ref_vel'' ''true vel'' True False False ''on''
                (Some [''ref_vel_x'', ''ref_vel_y'', ''ref_vel_z'']) None),
     (''ref_att'', Sim_data_init ''ref_att'' ''true attitude (Euler angles, ZYX)'' True False False ''on''
                (Some [''ref_Yaw'', ''ref_Pitch'', ''ref_Roll'']) None),
     (''ref_gyro'', Sim_data_init ''ref_gyro'' ''true angular velocity'' True False False ''on''
                (Some [''ref_gyro_x'', ''ref_gyro_y'', ''ref_gyro_z'']) None),
     (''ref_accel'', Sim_data_init ''ref_accel'' ''true accel'' True False False ''on''
                (Some [''ref_accel_x'', ''ref_accel_y'', ''ref_accel_z'']) None),
     (''ref_gps'', Sim_data_init ''ref_gps'' ''true GPS pos/vel'' True False False ''on''
                (Some [''ref_gps_x'', ''ref_gps_y'', ''ref_gps_z'',
                       ''ref_gps_vx'', ''ref_gps_vy'', ''ref_gps_vz'']) None),
     (''ref_mag'', Sim_data_init ''ref_mag'' ''true magnetic field'' True False False ''on''
                (Some [''ref_mag_x'', ''ref_mag_y'', ''ref_mag_z'']) None),
     (''pos'', Sim_data_init ''pos'' ''sim pos'' True False False ''on''
                (Some [''pos_x'', ''pos_y'', ''pos_z'']) None),
     (''vel'', Sim_data_init ''vel'' ''sim vel'' True False False ''on''
                (Some [''vel_x'', ''vel_y'', ''vel_z'']) None),
     (''att_quat'', Sim_data_init ''att_quat'' ''sim att (quaternion)'' True False False ''on''
                (Some [''q0'', ''q1'', ''q2'', ''q3'']) None),
     (''att_euler'', Sim_data_init ''att_euler'' ''sim att (Euler angles, ZYX)'' True False False ''on''
                (Some [''Yaw'', ''Pitch'', ''Roll'']) None),
     (''gyro'', Sim_data_init ''gyro'' ''gyro measurements'' True False False ''on''
                (Some [''gyro_x'', ''gyro_y'', ''gyro_z'']) None),
     (''accel'', Sim_data_init ''accel'' ''accel measurements'' True False False ''on''
                (Some [''accel_x'', ''accel_y'', ''accel_z'']) None),
     (''gps'', Sim_data_init ''gps'' ''GPS measurements'' True False False ''on''
                (Some [''gps_x'', ''gps_y'', ''gps_z'', ''gps_vx'', ''gps_vy'', ''gps_vz'']) None),
     (''mag'', Sim_data_init ''mag'' ''magnetometer measurements'' True False False ''on''
                (Some [''mag_x'', ''mag_y'', ''mag_z'']) None),
     (''wb'', Sim_data_init ''wb'' ''gyro bias estimation'' True False False ''on''
                (Some [''gyro_bias_x'', ''gyro_bias_y'', ''gyro_bias_z'']) None),
     (''ab'', Sim_data_init ''ab'' ''accel bias estimation'' True False False ''on''
                (Some [''accel_bias_x'', ''accel_bias_y'', ''accel_bias_z'']) None),
     (''av_t'', Sim_data_init ''av_t'' ''Allan var time'' True False False ''on'' None None),
     (''av_gyro'', Sim_data_init ''av_gyro'' ''Allan var of gyro'' True True True ''on''
                (Some [''av_wx'', ''av_wy'', ''av_wz'']) (Some np_sqrt)),
     (''av_accel'', Sim_data_init ''av_accel'' ''Allan var of accel'' True True True ''on''
                (Some [''av_ax'', ''av_ay'', ''av_az'']) (Some np_sqrt))]"

text \<open>Lines 125 to 154: the three dicts of supported data. Line 138 uses the object
  \<open>self.gps_time\<close> itself as the key, where its neighbours use \<open>.name\<close>.\<close>

definition init_supported_in_constant ::
  "(string \<Rightarrow> sim_data option) \<Rightarrow> 'e imu_model \<Rightarrow> registry" where
  "init_supported_in_constant self im =
    (let d0 = [Name (name (attr self ''fs'')) \<mapsto> description (attr self ''fs''),
               Name (name (attr self ''ref_frame'')) \<mapsto> description (attr self ''ref_frame''),
               Name (name (attr self ''ref_pos'')) \<mapsto> description (attr self ''ref_pos''),
               Name (name (attr self ''ref_vel'')) \<mapsto> description (attr self ''ref_vel''),
               Name (name (attr self ''ref_att'')) \<mapsto> description (attr self ''ref_att''),
               Name (name (attr self ''ref_gyro'')) \<mapsto> description (attr self ''ref_gyro''),
               Name (name (attr self ''ref_accel'')) \<mapsto> description (attr self ''ref_accel'')];
         d1 = (if gps im
               then d0(Name (name (attr self ''ref_gps'')) \<mapsto> description (attr self ''ref_gps''),
                       Obj ''gps_time'' \<mapsto> description (attr self ''gps_time''))
               else d0)
     in if magnetometer im
        then d1(Name (name (attr self ''ref_mag'')) \<mapsto> description (attr self ''ref_mag''))
        else d1)"

definition init_supported_in_varying ::
  "(string \<Rightarrow> sim_data option) \<Rightarrow> 'e imu_model \<Rightarrow> registry" where
  "init_supported_in_varying self im =
    (let d0 = [Name (name (attr self ''gyro'')) \<mapsto> description (attr self ''gyro''),
               Name (name (attr self ''accel'')) \<mapsto> description (attr self ''accel'')];
         d1 = (if gps im
               then d0(Name (name (attr self ''gps'')) \<mapsto> description (attr self ''gps''))
               else d0)
     in if magnetometer im
        then d1(Name (name (attr self ''mag'')) \<mapsto> description (attr self ''mag''))
        else d1)"

definition init_supported_out :: "(string \<Rightarrow> sim_data option) \<Rightarrow> registry" where
  "init_supported_out self =
     [Name (name (attr self ''pos'')) \<mapsto> description (attr self ''pos''),
      Name (name (attr self ''vel'')) \<mapsto> description (attr self ''vel''),
      Name (name (attr self ''att_quat'')) \<mapsto> description (attr self ''att_quat''),
      Name (name (attr self ''att_euler'')) \<mapsto> description (attr self ''att_euler''),
      Name (name (attr self ''wb'')) \<mapsto> description (attr self ''wb''),
      Name (name (attr self ''ab'')) \<mapsto> description (attr self ''ab''),
      Name (name (attr self ''av_t'')) \<mapsto> description (attr self ''av_t''),
      Name (name (attr self ''av_gyro'')) \<mapsto> description (attr self ''av_gyro''),
      Name (name (attr self ''av_accel'')) \<mapsto> description (attr self ''av_accel'')]"

text \<open>Lines 161 to 171. The argument is the array that \<open>np.genfromtxt\<close> returned for the
  file. \<open>shape\<close> is the tuple \<open>waypoints.shape\<close>; reading a component that the tuple
  does not have raises \<open>IndexError\<close>.\<close>

definition shape :: "pyval \<Rightarrow> nat list" where
  "shape a = (case a of Num x \<Rightarrow> []
              | Arr1 xs \<Rightarrow> [length xs]
              | Arr2 m \<Rightarrow> [length m, (case m of [] \<Rightarrow> 0 | r # rs \<Rightarrow> length r)])"

definition tuple_get :: "'a list \<Rightarrow> nat \<Rightarrow> error + 'a" where
  "tuple_get xs i = (if i < length xs then Inr (xs ! i) else Inl IndexError)"

definition motion_msg :: string where
  "motion_msg = ''motion definition file must have nine columns '' @ replicate 30 CHR '' ''
                 @ ''and at least two rows and ''"

definition scale_at :: "nat \<Rightarrow> real list \<Rightarrow> real list" where
  "scale_at j r = r[j := r ! j * D2R]"

definition read_motion ::
  "pyval \<Rightarrow> error + (real list \<times> real list \<times> real list \<times> real list list)" where
  "read_motion waypoints =
    (case tuple_get (shape waypoints) 0 of Inl e \<Rightarrow> Inl e
     | Inr n0 \<Rightarrow>
       (case (if n0 < 2 then Inr True
              else (case tuple_get (shape waypoints) 1 of Inl e \<Rightarrow> Inl e
                    | Inr n1 \<Rightarrow> Inr (n1 \<noteq> 9))) of
          Inl e \<Rightarrow> Inl e
        | Inr True \<Rightarrow> Inl (ValueError motion_msg)
        | Inr False \<Rightarrow>
          (case waypoints of
             Arr2 m \<Rightarrow>
               Inr (scale_at 1 (scale_at 0 (take 3 (m ! 0))),
                    take 3 (drop 3 (m ! 0)),
                    take 3 (drop 6 (m ! 0)),
                    map (\<lambda>r. scale_at 3 (scale_at 2 (scale_at 1 (map (\<lambda>j. r ! j) [0, 1, 2, 3, 4, 7]))))
                        (drop 1 m))
           | _ \<Rightarrow> Inl IndexError)))"

text \<open>Lines 175 to 180; \<open>fs_data\<close> is \<open>self.fs.data\<close>, the number stored at line 57.\<close>

definition init_output_def :: "real list \<Rightarrow> real \<Rightarrow> 'e imu_model \<Rightarrow> error + real list list" where
  "init_output_def fs fs_data im =
    (if gps im
     then (case tuple_get fs 1 of Inl e \<Rightarrow> Inl e
           | Inr f1 \<Rightarrow> Inr [[1.0, fs_data], [1.0, f1]])
     else Inr [[1.0, fs_data], [-1.0, fs_data]])"

text \<open>Lines 183 to 188 and 191 to 197.\<close>

definition init_mobility :: "pyarg \<Rightarrow> error + pyval" where
  "init_mobility mode =
    (case mode of Str m \<Rightarrow> Inr high_mobility
     | Ndarray a \<Rightarrow> Inr a
     | Other \<Rightarrow> Inl (TypeError ''mode should be a string or a numpy array of size (3,)''))"

definition init_vib_def :: "pyarg \<Rightarrow> error + real list list option" where
  "init_vib_def env =
    (case env of Str m \<Rightarrow> Inr None
     | Ndarray a \<Rightarrow> Inr None
     | Other \<Rightarrow> Inl (TypeError ''env should be a string or a numpy array of size (n,2)''))"

text \<open>\<open>Sim.parse_algo_in_out\<close>: the two loops, then the method. The method changes
  \<open>self\<close> also when it returns \<open>False\<close>.\<close>

fun parse_in :: "registry \<Rightarrow> registry \<Rightarrow> string list \<Rightarrow> token list \<Rightarrow> bool \<times> token list" where
  "parse_in c v [] e = (True, e)"
| "parse_in c v (i # rest) e =
     (if c (Name i) \<noteq> None then parse_in c v rest (e @ [Self_data i])
      else if v (Name i) \<noteq> None then parse_in c v rest (e @ [Self_data_at i])
      else (False, e))"

fun parse_out :: "registry \<Rightarrow> string list \<Rightarrow> token list \<Rightarrow> bool \<times> token list" where
  "parse_out out [] e = (True, e)"
| "parse_out out (i # rest) e =
     (if out (Name i) \<noteq> None then parse_out out rest (e @ [Self_data_at i])
      else (False, e))"

definition parse_algo_in_out :: "('w, 'e) sim \<Rightarrow> (error + bool) \<times> ('w, 'e) sim" where
  "parse_algo_in_out s =
    (case algo s of
       None \<Rightarrow> (Inl AttributeError, s)
     | Some a \<Rightarrow>
       (case parse_in (supported_in_constant s) (supported_in_varying s) (input_names a) (algo_in_expr s) of
          (False, e_in) \<Rightarrow> (Inr False, s\<lparr>algo_in_expr := e_in\<rparr>)
        | (True, e_in) \<Rightarrow>
          (case parse_out (supported_out s) (output_names a) (algo_out_expr s) of
             (False, e_out) \<Rightarrow> (Inr False, s\<lparr>algo_in_expr := e_in, algo_out_expr := e_out\<rparr>)
           | (True, e_out) \<Rightarrow>
               (Inr True, s\<lparr>algo_in_expr := e_in @ [RBracket],
                            algo_out_expr := e_out @ [RBracket]\<rparr>))))"

text \<open>Lines 203 to 216: an exception other than \<open>ValueError\<close> inside the \<open>try\<close> becomes
  the \<open>TypeError\<close>.\<close>

definition check_algorithm :: "('w, 'e) sim \<Rightarrow> 'w algorithm \<Rightarrow> error + ('w, 'e) sim" where
  "check_algorithm s a =
    (if length (input_names a) < 1 \<or> length (output_names a) < 1
     then Inl (ValueError ''check input and output definitions of the algorithm.'')
     else (case parse_algo_in_out s of
             (Inr True, s') \<Rightarrow> Inr s'
           | (Inr False, s') \<Rightarrow> Inl (ValueError ''check input and output definitions of the algorithm.'')
           | (Inl e, s') \<Rightarrow> Inl (TypeError ''algorithm is not valid.'')))"

text \<open>\<open>Sim.__init__(fs, imu, path, mode, env, algorithm)\<close>, in two parts: lines 51 to
  202 (every attribute is set), then the check of the algorithm in lines 203 to 216. An
  exception leaves the caller without an object: the result is the error alone. The
  argument \<open>waypoints\<close> stands for \<open>np.genfromtxt(path, delimiter=',')\<close>.\<close>

definition init_attributes ::
  "real list \<Rightarrow> 'e imu_model \<Rightarrow> pyval \<Rightarrow> pyarg \<Rightarrow> pyarg \<Rightarrow> 'w algorithm option
     \<Rightarrow> error + ('w, 'e) sim" where
  "init_attributes fs im waypoints mode env algorithm =
    (case tuple_get fs 0 of Inl e \<Rightarrow> Inl e
     | Inr fs0 \<Rightarrow>
       (case read_motion waypoints of Inl e \<Rightarrow> Inl e
        | Inr (pos_n, vel_b, att, mdef) \<Rightarrow>
          (case init_output_def fs fs0 im of Inl e \<Rightarrow> Inl e
           | Inr odef \<Rightarrow>
             (case init_mobility mode of Inl e \<Rightarrow> Inl e
              | Inr mob \<Rightarrow>
                (case init_vib_def env of Inl e \<Rightarrow> Inl e
                 | Inr vib \<Rightarrow>
                     Inr \<lparr>sim_complete = False, sim_count = 1, imu = im,
                          objs = new_containers fs0,
                          supported_in_constant = init_supported_in_constant (new_containers fs0) im,
                          supported_in_varying = init_supported_in_varying (new_containers fs0) im,
                          supported_out = init_supported_out (new_containers fs0),
                          res = Map.empty, supported_plot = Map.empty,
                          ini_pos_n = pos_n, ini_vel_b = vel_b, ini_att = att,
                          motion_def = mdef, output_def = odef, mobility = mob,
                          vib_def = vib, algo = algorithm,
                          algo_in_expr = [LBracket], algo_out_expr = [LBracket]\<rparr>)))))"

definition Sim_init ::
  "real list \<Rightarrow> 'e imu_model \<Rightarrow> pyval \<Rightarrow> pyarg \<Rightarrow> pyarg \<Rightarrow> 'w algorithm option
     \<Rightarrow> error + ('w, 'e) sim" where
  "Sim_init fs im waypoints mode env algorithm =
    (case init_attributes fs im waypoints mode env algorithm of Inl e \<Rightarrow> Inl e
     | Inr s \<Rightarrow> (case algorithm of None \<Rightarrow> Inr s | Some a \<Rightarrow> check_algorithm s a))"

subsection \<open>The collaborators\<close>

text \<open>The module \<open>pathgen\<close> is outside the repository's source: its five functions are
  parameters. Each takes the hidden outside state and returns the new one with its
  result or its exception. \<open>path_gen\<close> returns the dict with the keys \<open>nav\<close>, \<open>imu\<close>,
  \<open>gps\<close> and \<open>mag\<close>, each a two-axis array.\<close>

record pathgen_rtn =
  rtn_nav :: "real list list"
  rtn_imu :: "real list list"
  rtn_gps :: "real list list"
  rtn_mag :: "real list list"

record ('w, 'e) pathgen =
  path_gen :: "real list \<Rightarrow> real list list \<Rightarrow> real list list \<Rightarrow> pyval \<Rightarrow> payload \<Rightarrow> bool
                 \<Rightarrow> 'w \<Rightarrow> (error + pathgen_rtn) \<times> 'w"
  acc_gen :: "payload \<Rightarrow> payload \<Rightarrow> 'e \<Rightarrow> real list list option \<Rightarrow> 'w \<Rightarrow> (error + pyval) \<times> 'w"
  gyro_gen :: "payload \<Rightarrow> payload \<Rightarrow> 'e \<Rightarrow> 'w \<Rightarrow> (error + pyval) \<times> 'w"
  gps_gen :: "payload \<Rightarrow> 'e \<Rightarrow> payload \<Rightarrow> 'w \<Rightarrow> (error + pyval) \<times> 'w"
  mag_gen :: "payload \<Rightarrow> 'e \<Rightarrow> 'w \<Rightarrow> (error + pyval) \<times> 'w"

text \<open>A Python int or finite float, and \<open>int(x)\<close> on it: truncation toward zero.\<close>

datatype num = PyInt int | PyFloat real

definition py_int :: "num \<Rightarrow> int" where
  "py_int x = (case x of PyInt n \<Rightarrow> n
               | PyFloat r \<Rightarrow> (if 0 \<le> r then \<lfloor>r\<rfloor> else \<lceil>r\<rceil>))"

text \<open>Any Python int or float: the floats \<open>inf\<close>, \<open>-inf\<close> and \<open>nan\<close> denote no real number.
  On them the built-in \<open>int(x)\<close> raises: \<open>OverflowError\<close> for the two infinities,
  \<open>ValueError\<close> for \<open>nan\<close>. \<open>below_one\<close> is the comparison \<open>x < 1\<close> of Python.\<close>

datatype pynumber = Finite num | PosInf | NegInf | NaN

definition builtin_int :: "pynumber \<Rightarrow> error + int" where
  "builtin_int x =
    (case x of
       Finite v \<Rightarrow> Inr (py_int v)
     | PosInf \<Rightarrow> Inl (OverflowError ''cannot convert float infinity to integer'')
     | NegInf \<Rightarrow> Inl (OverflowError ''cannot convert float infinity to integer'')
     | NaN \<Rightarrow> Inl (ValueError ''cannot convert float NaN to integer''))"

subsection \<open>Running the simulation\<close>

text \<open>A method that raises leaves \<open>self\<close> as changed so far: the result is the
  exception (if any) with the state. \<open>and_then\<close> runs the next statement only when the
  one before did not raise.\<close>

definition and_then :: "error option \<times> 'st \<Rightarrow> ('st \<Rightarrow> error option \<times> 'st) \<Rightarrow> error option \<times> 'st" where
  "and_then r f = (case r of (None, st) \<Rightarrow> f st | (Some e, st) \<Rightarrow> (Some e, st))"

text \<open>\<open>self.n.data = v\<close>\<close>

definition set_data :: "string \<Rightarrow> payload \<Rightarrow> ('w, 'e) sim \<Rightarrow> ('w, 'e) sim" where
  "set_data n v s = s\<lparr>objs := (objs s)(n \<mapsto> (attr (objs s) n)\<lparr>data := v\<rparr>)\<rparr>"

text \<open>\<open>self.n.data[i] = v\<close>. The data of a container written per trial is the dict of
  line 398 throughout (\<open>run\<close> rebinds \<open>.data\<close> of the reference containers only), so the
  last branch is never taken by an object that \<open>Sim.__init__\<close> built; it stands for item
  assignment to a number.\<close>

definition set_item :: "string \<Rightarrow> int \<Rightarrow> pyval \<Rightarrow> ('w, 'e) sim \<Rightarrow> error + ('w, 'e) sim" where
  "set_item n i v s =
    (case objs s n of None \<Rightarrow> Inl AttributeError
     | Some d \<Rightarrow>
       (case data d of
          Dict m \<Rightarrow> Inr (s\<lparr>objs := (objs s)(n \<mapsto> d\<lparr>data := Dict (m(i \<mapsto> v))\<rparr>)\<rparr>)
        | Val x \<Rightarrow> Inl (TypeError ''object does not support item assignment'')))"

text \<open>\<open>d[i]\<close> for the data of a container, and \<open>self.n.data[i]\<close>.\<close>

definition py_index :: "'a list \<Rightarrow> int \<Rightarrow> error + 'a" where
  "py_index xs i =
    (let j = (if i < 0 then i + int (length xs) else i)
     in if 0 \<le> j \<and> j < int (length xs) then Inr (xs ! nat j) else Inl IndexError)"

definition payload_get :: "payload \<Rightarrow> int \<Rightarrow> error + pyval" where
  "payload_get p i =
    (case p of
       Dict m \<Rightarrow> (case m i of None \<Rightarrow> Inl KeyError | Some v \<Rightarrow> Inr v)
     | Val (Arr2 rows) \<Rightarrow> (case py_index rows i of Inl e \<Rightarrow> Inl e | Inr r \<Rightarrow> Inr (Arr1 r))
     | Val (Arr1 xs) \<Rightarrow> (case py_index xs i of Inl e \<Rightarrow> Inl e | Inr x \<Rightarrow> Inr (Num x))
     | Val (Num x) \<Rightarrow> Inl (TypeError ''object is not subscriptable''))"

definition get_item :: "string \<Rightarrow> int \<Rightarrow> ('w, 'e) sim \<Rightarrow> error + pyval" where
  "get_item n i s =
    (case objs s n of None \<Rightarrow> Inl AttributeError
     | Some d \<Rightarrow> payload_get (data d) i)"

text \<open>Array slices \<open>a[:, 0]\<close> and \<open>a[:, lo:hi]\<close>.\<close>

definition column0 :: "real list list \<Rightarrow> error + pyval" where
  "column0 m = (if \<exists>r \<in> set m. r = [] then Inl IndexError else Inr (Arr1 (map (\<lambda>r. r ! 0) m)))"

definition columns :: "nat \<Rightarrow> nat \<Rightarrow> real list list \<Rightarrow> pyval" where
  "columns lo hi m = Arr2 (map (\<lambda>r. take (hi - lo) (drop lo r)) m)"

text \<open>Lines 228 to 242: the reference data.\<close>

definition save_gps_ref :: "pathgen_rtn \<Rightarrow> ('w, 'e) sim \<Rightarrow> error option \<times> ('w, 'e) sim" where
  "save_gps_ref rtn s =
    (if gps (imu s)
     then (case column0 (rtn_gps rtn) of Inl e \<Rightarrow> (Some e, s)
           | Inr t \<Rightarrow> (None, set_data ''ref_gps'' (Val (columns 1 7 (rtn_gps rtn)))
                               (set_data ''gps_time'' (Val t) s)))
     else (None, s))"

definition save_mag_ref :: "pathgen_rtn \<Rightarrow> ('w, 'e) sim \<Rightarrow> error option \<times> ('w, 'e) sim" where
  "save_mag_ref rtn s =
    (if magnetometer (imu s)
     then (None, set_data ''ref_mag'' (Val (columns 1 4 (rtn_mag rtn))) s)
     else (None, s))"

definition save_reference :: "pathgen_rtn \<Rightarrow> ('w, 'e) sim \<Rightarrow> error option \<times> ('w, 'e) sim" where
  "save_reference rtn s =
    (case column0 (rtn_nav rtn) of Inl e \<Rightarrow> (Some e, s)
     | Inr t \<Rightarrow>
       and_then
         (save_gps_ref rtn
           (set_data ''ref_gyro'' (Val (columns 4 7 (rtn_imu rtn)))
           (set_data ''ref_accel'' (Val (columns 1 4 (rtn_imu rtn)))
           (set_data ''ref_att'' (Val (columns 7 10 (rtn_nav rtn)))
           (set_data ''ref_vel'' (Val (columns 4 7 (rtn_nav rtn)))
           (set_data ''ref_pos'' (Val (columns 1 4 (rtn_nav rtn)))
           (set_data ''time'' (Val t) s)))))))
         (save_mag_ref rtn))"

definition gen_reference ::
  "('w, 'e) pathgen \<Rightarrow> ('w, 'e) sim \<times> 'w \<Rightarrow> error option \<times> ('w, 'e) sim \<times> 'w" where
  "gen_reference pg st =
    (case st of (s, w) \<Rightarrow>
      (case path_gen pg (ini_pos_n s @ ini_vel_b s @ ini_att s) (motion_def s) (output_def s)
                 (mobility s) (data (attr (objs s) ''ref_frame'')) (magnetometer (imu s)) w of
         (Inl e, w') \<Rightarrow> (Some e, s, w')
       | (Inr rtn, w') \<Rightarrow> (case save_reference rtn s of (r, s') \<Rightarrow> (r, s', w'))))"

text \<open>Lines 245 to 263: one pass of the loop body, statement by statement.\<close>

definition store_gen ::
  "string \<Rightarrow> int \<Rightarrow> (error + pyval) \<times> 'w \<Rightarrow> ('w, 'e) sim \<Rightarrow> error option \<times> ('w, 'e) sim \<times> 'w" where
  "store_gen n i r s =
    (case r of
       (Inl e, w') \<Rightarrow> (Some e, s, w')
     | (Inr v, w') \<Rightarrow>
       (case set_item n i v s of Inl e \<Rightarrow> (Some e, s, w') | Inr s' \<Rightarrow> (None, s', w')))"

definition accel_stage ::
  "('w, 'e) pathgen \<Rightarrow> int \<Rightarrow> ('w, 'e) sim \<times> 'w \<Rightarrow> error option \<times> ('w, 'e) sim \<times> 'w" where
  "accel_stage pg i st =
    (case st of (s, w) \<Rightarrow>
       store_gen ''accel'' i
         (acc_gen pg (data (attr (objs s) ''fs'')) (data (attr (objs s) ''ref_accel''))
                  (accel_err (imu s)) (vib_def s) w) s)"

definition gyro_stage ::
  "('w, 'e) pathgen \<Rightarrow> int \<Rightarrow> ('w, 'e) sim \<times> 'w \<Rightarrow> error option \<times> ('w, 'e) sim \<times> 'w" where
  "gyro_stage pg i st =
    (case st of (s, w) \<Rightarrow>
       store_gen ''gyro'' i
         (gyro_gen pg (data (attr (objs s) ''fs'')) (data (attr (objs s) ''ref_gyro''))
                   (gyro_err (imu s)) w) s)"

definition gps_stage ::
  "('w, 'e) pathgen \<Rightarrow> int \<Rightarrow> ('w, 'e) sim \<times> 'w \<Rightarrow> error option \<times> ('w, 'e) sim \<times> 'w" where
  "gps_stage pg i st =
    (case st of (s, w) \<Rightarrow>
       if gps (imu s)
       then store_gen ''gps'' i
              (gps_gen pg (data (attr (objs s) ''ref_gps'')) (gps_err (imu s))
                       (data (attr (objs s) ''ref_frame'')) w) s
       else (None, s, w))"

definition mag_stage ::
  "('w, 'e) pathgen \<Rightarrow> int \<Rightarrow> ('w, 'e) sim \<times> 'w \<Rightarrow> error option \<times> ('w, 'e) sim \<times> 'w" where
  "mag_stage pg i st =
    (case st of (s, w) \<Rightarrow>
       if magnetometer (imu s)
       then store_gen ''mag'' i
              (mag_gen pg (data (attr (objs s) ''ref_mag'')) (mag_err (imu s)) w) s
       else (None, s, w))"

text \<open>\<open>eval\<close> and \<open>exec\<close> of the two expressions, with \<open>NO_OF_SIM\<close> replaced by the trial
  index. A text that is not \<open>[\<close> items \<open>]\<close> does not compile.\<close>

definition is_item :: "token \<Rightarrow> bool" where
  "is_item t = (case t of Self_data n \<Rightarrow> True | Self_data_at n \<Rightarrow> True | _ \<Rightarrow> False)"

definition expr_items :: "token list \<Rightarrow> error + token list" where
  "expr_items e =
    (case e of
       LBracket # r \<Rightarrow>
         (if r \<noteq> [] \<and> last r = RBracket \<and> list_all is_item (butlast r)
          then Inr (butlast r) else Inl SyntaxError)
     | _ \<Rightarrow> Inl SyntaxError)"

fun eval_items :: "('w, 'e) sim \<Rightarrow> int \<Rightarrow> token list \<Rightarrow> error + payload list" where
  "eval_items s i [] = Inr []"
| "eval_items s i (t # ts) =
     (case (case t of
              Self_data n \<Rightarrow> (case objs s n of None \<Rightarrow> Inl AttributeError | Some d \<Rightarrow> Inr (data d))
            | Self_data_at n \<Rightarrow> (case get_item n i s of Inl e \<Rightarrow> Inl e | Inr v \<Rightarrow> Inr (Val v))
            | _ \<Rightarrow> Inl SyntaxError) of
        Inl e \<Rightarrow> Inl e
      | Inr v \<Rightarrow> (case eval_items s i ts of Inl e \<Rightarrow> Inl e | Inr vs \<Rightarrow> Inr (v # vs)))"

text \<open>The targets of the unpacking assignment are assigned from left to right.\<close>

fun assign_items :: "int \<Rightarrow> token list \<Rightarrow> pyval list \<Rightarrow> ('w, 'e) sim \<Rightarrow> error option \<times> ('w, 'e) sim" where
  "assign_items i (t # ts) (v # vs) s =
     (case (case t of
              Self_data n \<Rightarrow>
                (case objs s n of None \<Rightarrow> Inl AttributeError | Some d \<Rightarrow> Inr (set_data n (Val v) s))
            | Self_data_at n \<Rightarrow> set_item n i v s
            | _ \<Rightarrow> Inl SyntaxError) of
        Inl e \<Rightarrow> (Some e, s)
      | Inr s' \<Rightarrow> assign_items i ts vs s')"
| "assign_items i ts vs s = (None, s)"

definition algo_stage :: "int \<Rightarrow> ('w, 'e) sim \<times> 'w \<Rightarrow> error option \<times> ('w, 'e) sim \<times> 'w" where
  "algo_stage i st =
    (case st of (s, w) \<Rightarrow>
      (case algo s of
         None \<Rightarrow> (None, s, w)
       | Some a \<Rightarrow>
         (case expr_items (algo_in_expr s) of Inl e \<Rightarrow> (Some e, s, w)
          | Inr ins \<Rightarrow>
            (case eval_items s i ins of Inl e \<Rightarrow> (Some e, s, w)
             | Inr args \<Rightarrow>
               (case algo_run a args w of
                  (Some e, w1) \<Rightarrow> (Some e, s, w1)
                | (None, w1) \<Rightarrow>
                  (case expr_items (algo_out_expr s) of Inl e \<Rightarrow> (Some e, s, w1)
                   | Inr outs \<Rightarrow>
                     (case get_results a w1 of
                        (Inl e, w2) \<Rightarrow> (Some e, s, w2)
                      | (Inr vs, w2) \<Rightarrow>
                        (if length vs \<noteq> length outs
                         then (Some (ValueError ''wrong number of values to unpack''), s, w2)
                         else (case assign_items i outs vs s of (r, s') \<Rightarrow> (r, s', w2))))))))))"

definition trial ::
  "('w, 'e) pathgen \<Rightarrow> int \<Rightarrow> ('w, 'e) sim \<times> 'w \<Rightarrow> error option \<times> ('w, 'e) sim \<times> 'w" where
  "trial pg i st =
     and_then (and_then (and_then (and_then (accel_stage pg i st) (gyro_stage pg i))
                                  (gps_stage pg i)) (mag_stage pg i)) (algo_stage i)"

fun run_trials ::
  "('w, 'e) pathgen \<Rightarrow> int list \<Rightarrow> ('w, 'e) sim \<times> 'w \<Rightarrow> error option \<times> ('w, 'e) sim \<times> 'w" where
  "run_trials pg [] st = (None, st)"
| "run_trials pg (i # rest) st = and_then (trial pg i st) (run_trials pg rest)"

text \<open>\<open>range(0, n)\<close>\<close>

definition range0 :: "int \<Rightarrow> int list" where
  "range0 n = map int [0 ..< nat n]"

text \<open>Lines 224 to 226. When \<open>int(num_times)\<close> raises, nothing has been assigned.\<close>

definition set_sim_count :: "pynumber \<Rightarrow> ('w, 'e) sim \<Rightarrow> error + ('w, 'e) sim" where
  "set_sim_count num_times s =
    (case builtin_int num_times of
       Inl e \<Rightarrow> Inl e
     | Inr c \<Rightarrow>
         (let s1 = s\<lparr>sim_count := c\<rparr>
          in Inr (if sim_count s1 < 1 then s1\<lparr>sim_count := 1\<rparr> else s1)))"

text \<open>\<open>Sim.run(num_times)\<close>\<close>

definition Sim_run ::
  "('w, 'e) pathgen \<Rightarrow> pynumber \<Rightarrow> ('w, 'e) sim \<times> 'w \<Rightarrow> error option \<times> ('w, 'e) sim \<times> 'w" where
  "Sim_run pg num_times st =
    (case st of (s, w) \<Rightarrow>
      (case set_sim_count num_times s of
         Inl e \<Rightarrow> (Some e, s, w)
       | Inr s0 \<Rightarrow>
         and_then
           (and_then (gen_reference pg (s0, w))
                     (\<lambda>(s1, w1). run_trials pg (range0 (sim_count s1)) (s1, w1)))
           (\<lambda>(s2, w2). (None, s2\<lparr>sim_complete := True\<rparr>, w2))))"

subsection \<open>Results\<close>

text \<open>\<open>d[k]\<close> and \<open>d.pop(k)\<close> on a dict.\<close>

definition dict_get :: "('k \<Rightarrow> 'v option) \<Rightarrow> 'k \<Rightarrow> error + 'v" where
  "dict_get d k = (case d k of None \<Rightarrow> Inl KeyError | Some v \<Rightarrow> Inr v)"

definition dict_pop :: "('k \<Rightarrow> 'v option) \<Rightarrow> 'k \<Rightarrow> error + ('k \<Rightarrow> 'v option)" where
  "dict_pop d k = (case d k of None \<Rightarrow> Inl KeyError | Some v \<Rightarrow> Inr (d(k := None)))"

text \<open>Lines 280 and 281: \<open>for i in self.algo.output: self.res[i] = self.supported_out[i]\<close>\<close>

fun add_outputs :: "registry \<Rightarrow> string list \<Rightarrow> registry \<Rightarrow> error option \<times> registry" where
  "add_outputs out [] r = (None, r)"
| "add_outputs out (i # rest) r =
     (case dict_get out (Name i) of Inl e \<Rightarrow> (Some e, r)
      | Inr d \<Rightarrow> add_outputs out rest (r(Name i \<mapsto> d)))"

text \<open>\<open>Sim.results()\<close>: the returned dict (or the exception) and the changed \<open>self\<close>.\<close>

definition Sim_results :: "('w, 'e) sim \<Rightarrow> (error + registry) \<times> ('w, 'e) sim" where
  "Sim_results s =
    (if sim_complete s
     then (case (case algo s of
                   None \<Rightarrow> (None, supported_in_constant s ++ supported_in_varying s)
                 | Some a \<Rightarrow> add_outputs (supported_out s) (output_names a)
                               (supported_in_constant s ++ supported_in_varying s)) of
             (Some e, r) \<Rightarrow> (Inl e, s\<lparr>res := r\<rparr>)
           | (None, r) \<Rightarrow>
             (case dict_pop r (Name ''fs'') of
                Inl e \<Rightarrow> (Inl e, s\<lparr>res := r, supported_plot := r\<rparr>)
              | Inr p1 \<Rightarrow>
                (case dict_pop p1 (Name ''ref_frame'') of
                   Inl e \<Rightarrow> (Inl e, s\<lparr>res := r, supported_plot := p1\<rparr>)
                 | Inr p2 \<Rightarrow> (Inr r, s\<lparr>res := r, supported_plot := p2\<rparr>))))
     else (Inr (res s), s))"

subsection \<open>Plotting\<close>

text \<open>\<open>str(i)\<close> for an integer.\<close>

fun digits :: "nat \<Rightarrow> string" where
  "digits n = (if n < 10 then [char_of (48 + n)]
               else digits (n div 10) @ [char_of (48 + n mod 10)])"

declare digits.simps [simp del]

definition str_int :: "int \<Rightarrow> string" where
  "str_int i = (if i < 0 then CHR ''-'' # digits (nat (- i)) else digits (nat i))"

text \<open>What the user sees: the printed lines, the figures handed to matplotlib (with the
  arguments of \<open>plot_in_one_figure\<close>) and the final \<open>plt.show()\<close>. The calls into
  matplotlib themselves are taken to succeed; the shapes printed by the \<open>except\<close> branch of
  \<open>plot_in_one_figure\<close> are not recorded.\<close>

record figure =
  fig_title :: string
  fig_x :: payload
  fig_y :: pyval
  fig_logx :: bool
  fig_logy :: bool
  fig_grid :: string
  fig_legend :: "string list option"

datatype event = Print string | Figure figure | Show

text \<open>\<open>plot_in_one_figure(x, y, logx, logy, title, grid, legend)\<close>: an array \<open>y\<close> has
  \<open>y.ndim\<close> 1 or 2 here. A number (a Python float) has neither \<open>ndim\<close> nor \<open>shape\<close>: the
  \<open>except\<close> branch is entered, and its \<open>print(x.shape)\<close> (for a dict \<open>x\<close>) or
  \<open>print(y.shape)\<close> raises \<open>AttributeError\<close> before line 479 is reached.\<close>

definition plot_in_one_figure ::
  "payload \<Rightarrow> pyval \<Rightarrow> bool \<Rightarrow> bool \<Rightarrow> string \<Rightarrow> string \<Rightarrow> string list option \<Rightarrow> error + figure" where
  "plot_in_one_figure x y lx ly title gr lg =
    (case y of
       Num v \<Rightarrow> Inl AttributeError
     | _ \<Rightarrow> Inr \<lparr>fig_title = title, fig_x = x, fig_y = y, fig_logx = lx, fig_logy = ly,
               fig_grid = gr, fig_legend = lg\<rparr>)"

text \<open>\<open>Sim_data.plot_dict(x, key)\<close>, \<open>Sim_data.plot_array(x)\<close> and \<open>Sim_data.plot(x, key)\<close>.\<close>

fun plot_keys :: "sim_data \<Rightarrow> payload \<Rightarrow> int list \<Rightarrow> error option \<times> event list" where
  "plot_keys d x [] = (None, [])"
| "plot_keys d x (i # rest) =
     (case payload_get (data d) i of
        Inl e \<Rightarrow> (Some e, [])
      | Inr v \<Rightarrow>
        (case plot_in_one_figure x (case pre_func d of None \<Rightarrow> v | Some f \<Rightarrow> f v)
                (logx d) (logy d) (name d @ ''_'' @ str_int i) (grid d) (legend d) of
           Inl e \<Rightarrow> (Some e, [])
         | Inr f \<Rightarrow> (case plot_keys d x rest of (r, evs) \<Rightarrow> (r, Figure f # evs))))"

definition plot_dict :: "sim_data \<Rightarrow> payload \<Rightarrow> int list option \<Rightarrow> error option \<times> event list" where
  "plot_dict d x k =
    (case k of None \<Rightarrow> (Some (TypeError ''object is not iterable''), [])
     | Some ks \<Rightarrow> plot_keys d x ks)"

definition plot_array :: "sim_data \<Rightarrow> payload \<Rightarrow> error option \<times> event list" where
  "plot_array d x =
    (case data d of
       Val v \<Rightarrow>
         (case plot_in_one_figure x v (logx d) (logy d) (name d) (grid d) (legend d) of
            Inl e \<Rightarrow> (Some e, [])
          | Inr f \<Rightarrow> (None, [Figure f]))
     | Dict m \<Rightarrow> (Some AttributeError, []))"

definition Sim_data_plot :: "sim_data \<Rightarrow> payload \<Rightarrow> int list option \<Rightarrow> error option \<times> event list" where
  "Sim_data_plot d x k =
    (if plottable d
     then (case data d of Dict m \<Rightarrow> plot_dict d x k | Val v \<Rightarrow> plot_array d x)
     else (None, []))"

text \<open>The argument \<open>sim_idx\<close> of \<open>Sim.plot\<close>: \<open>None\<close>, an integer, a float, a list or a
  tuple (the docstring: ``an integer, or a list or tuple''). The numbers of a selector are
  integers and finite floats, on which \<open>int()\<close> does not raise.\<close>

datatype selector =
    Sel_None
  | Sel_int int
  | Sel_float real
  | Sel_list "num list"
  | Sel_tuple "num list"

text \<open>Lines 300 to 305. The flag tells whether the sequence allows item assignment.\<close>

definition as_sequence :: "int \<Rightarrow> selector \<Rightarrow> bool \<times> num list" where
  "as_sequence cnt sel =
    (case sel of
       Sel_None \<Rightarrow> (True, map PyInt (range0 cnt))
     | Sel_int n \<Rightarrow> (True, [PyInt n])
     | Sel_float x \<Rightarrow> (True, [PyInt (py_int (PyFloat x))])
     | Sel_list xs \<Rightarrow> (True, xs)
     | Sel_tuple xs \<Rightarrow> (False, xs))"

text \<open>Lines 306 to 312: the converted list, \<open>invalid_idx\<close> and the printed lines.\<close>

definition exceeds_msg :: "nat \<Rightarrow> int \<Rightarrow> int \<Rightarrow> string" where
  "exceeds_msg i v cnt =
     ''sim_idx['' @ str_int (int i) @ ''] = '' @ str_int v
       @ '' exceeds max simulation count: '' @ str_int cnt @ ''.''"

fun scan_idx :: "int \<Rightarrow> nat \<Rightarrow> num list \<Rightarrow> int list \<times> int list \<times> event list" where
  "scan_idx cnt i [] = ([], [], [])"
| "scan_idx cnt i (x # xs) =
     (case scan_idx cnt (Suc i) xs of
        (vs, bad, out) \<Rightarrow>
          (if py_int x \<ge> cnt \<or> py_int x < 0
           then (py_int x # vs, py_int x # bad, Print (exceeds_msg i (py_int x) cnt) # out)
           else (py_int x # vs, bad, out)))"

text \<open>Lines 313 and 314: \<open>list.remove\<close> deletes the first equal element and raises when
  there is none.\<close>

fun remove_all :: "int list \<Rightarrow> int list \<Rightarrow> error + int list" where
  "remove_all [] xs = Inr xs"
| "remove_all (i # rest) xs =
     (if i \<in> set xs then remove_all rest (remove1 i xs)
      else Inl (ValueError ''list.remove(x): x not in list''))"

definition check_sim_idx :: "int \<Rightarrow> selector \<Rightarrow> (error + int list) \<times> event list" where
  "check_sim_idx cnt sel =
    (case as_sequence cnt sel of
       (mutable, xs) \<Rightarrow>
         (if \<not> mutable \<and> xs \<noteq> []
          then (Inl (TypeError ''tuple object does not support item assignment''), [])
          else (case scan_idx cnt 0 xs of
                  (vs, bad, out) \<Rightarrow> (remove_all bad vs, out))))"

text \<open>Lines 316 to 331, for one requested name.\<close>

definition const_x_axis :: "('w, 'e) sim \<Rightarrow> string \<Rightarrow> payload" where
  "const_x_axis s i =
    (if i = name (attr (objs s) ''ref_gps'') \<or> i = name (attr (objs s) ''gps_time'')
     then data (attr (objs s) ''gps_time'')
     else data (attr (objs s) ''time''))"

definition trial_x_axis :: "('w, 'e) sim \<Rightarrow> string \<Rightarrow> error + payload" where
  "trial_x_axis s i =
    (if i = name (attr (objs s) ''av_gyro'') \<or> i = name (attr (objs s) ''av_accel'')
        \<or> i = name (attr (objs s) ''av_t'')
     then (case get_item ''av_t'' 0 s of Inl e \<Rightarrow> Inl e | Inr v \<Rightarrow> Inr (Val v))
     else if i = name (attr (objs s) ''gps'')
     then Inr (data (attr (objs s) ''gps_time''))
     else Inr (data (attr (objs s) ''time'')))"

definition plot_name :: "('w, 'e) sim \<Rightarrow> int list \<Rightarrow> string \<Rightarrow> error option \<times> event list" where
  "plot_name s sim_idx i =
    (if supported_plot s (Name i) \<noteq> None
     then (if supported_in_constant s (Name i) \<noteq> None
           then (case objs s i of None \<Rightarrow> (Some AttributeError, [])
                 | Some d \<Rightarrow> Sim_data_plot d (const_x_axis s i) None)
           else (case trial_x_axis s i of Inl e \<Rightarrow> (Some e, [])
                 | Inr x \<Rightarrow>
                   (case objs s i of None \<Rightarrow> (Some AttributeError, [])
                    | Some d \<Rightarrow> Sim_data_plot d x (Some sim_idx))))
     else (None, [Print (''Unsupported plot: '' @ i @ ''.'')]))"

fun plot_names :: "('w, 'e) sim \<Rightarrow> int list \<Rightarrow> string list \<Rightarrow> error option \<times> event list" where
  "plot_names s sim_idx [] = (None, [Show])"
| "plot_names s sim_idx (i # rest) =
     (case plot_name s sim_idx i of
        (Some e, evs) \<Rightarrow> (Some e, evs)
      | (None, evs) \<Rightarrow> (case plot_names s sim_idx rest of (r, evs') \<Rightarrow> (r, evs @ evs')))"

text \<open>\<open>Sim.plot(what_to_plot, sim_idx)\<close>: it reads \<open>self\<close> and changes nothing in it.\<close>

definition Sim_plot :: "('w, 'e) sim \<Rightarrow> string list \<Rightarrow> selector \<Rightarrow> error option \<times> event list" where
  "Sim_plot s what_to_plot sel =
    (case check_sim_idx (sim_count s) sel of
       (Inl e, out) \<Rightarrow> (Some e, out)
     | (Inr sim_idx, out) \<Rightarrow>
         (case plot_names s sim_idx what_to_plot of (r, evs) \<Rightarrow> (r, out @ evs)))"

section \<open>Properties used in the statements\<close>

text \<open>An algorithm that \<open>Sim.__init__\<close> accepts for a given sensor configuration: at least
  one input and one output, every input a string key of one of the two input dicts, every
  output a string key of \<open>supported_out\<close>.\<close>

definition accepts :: "real \<Rightarrow> 'e imu_model \<Rightarrow> 'w algorithm \<Rightarrow> bool" where
  "accepts f im a \<longleftrightarrow>
     input_names a \<noteq> [] \<and> output_names a \<noteq> [] \<and>
     (\<forall>n \<in> set (input_names a).
        init_supported_in_constant (new_containers f) im (Name n) \<noteq> None
        \<or> init_supported_in_varying (new_containers f) im (Name n) \<noteq> None) \<and>
     (\<forall>n \<in> set (output_names a). init_supported_out (new_containers f) (Name n) \<noteq> None)"

text \<open>The piece that \<open>parse_algo_in_out\<close> appends for an accepted input name.\<close>

definition in_item :: "registry \<Rightarrow> string \<Rightarrow> token" where
  "in_item c n = (if c (Name n) \<noteq> None then Self_data n else Self_data_at n)"

text \<open>The containers that are written per trial: the keys of \<open>supported_in_varying\<close>
  and of \<open>supported_out\<close>. \<open>slot s n i\<close> is the entry of trial \<open>i\<close> in the dict
  \<open>self.n.data\<close>, if there is one.\<close>

definition per_trial_names :: "string list" where
  "per_trial_names = [''gyro'', ''accel'', ''gps'', ''mag'', ''pos'', ''vel'', ''att_quat'',
                      ''att_euler'', ''wb'', ''ab'', ''av_t'', ''av_gyro'', ''av_accel'']"

definition slot :: "('w, 'e) sim \<Rightarrow> string \<Rightarrow> int \<Rightarrow> pyval option" where
  "slot s n i =
    (case objs s n of None \<Rightarrow> None
     | Some d \<Rightarrow> (case data d of Dict m \<Rightarrow> m i | Val v \<Rightarrow> None))"

text \<open>The output names that the bound algorithm declares.\<close>

definition declared_outputs :: "('w, 'e) sim \<Rightarrow> string set" where
  "declared_outputs s = (case algo s of None \<Rightarrow> {} | Some a \<Rightarrow> set (output_names a))"

text \<open>The value of a Python int or finite float, and the comparison \<open>x < 1\<close> of Python
  for any int or float: \<open>-inf\<close> is below every number, \<open>inf\<close> and \<open>nan\<close> are below none.\<close>

definition num_value :: "num \<Rightarrow> real" where
  "num_value x = (case x of PyInt n \<Rightarrow> real_of_int n | PyFloat r \<Rightarrow> r)"

definition below_one :: "pynumber \<Rightarrow> bool" where
  "below_one x = (case x of Finite v \<Rightarrow> num_value v < 1 | NegInf \<Rightarrow> True | PosInf \<Rightarrow> False
                  | NaN \<Rightarrow> False)"

text \<open>The objects a caller can hold: built by \<open>Sim.__init__\<close>, then changed by calls of
  \<open>run\<close> (returning or raising) and of \<open>results\<close>, with \<open>pathgen\<close> in any hidden state.\<close>

inductive reachable :: "('w, 'e) pathgen \<Rightarrow> ('w, 'e) sim \<Rightarrow> bool" for pg where
  constructed: "Sim_init fs im waypoints mode env algorithm = Inr s \<Longrightarrow> reachable pg s"
| after_run: "reachable pg s \<Longrightarrow> Sim_run pg num_times (s, w) = (r, s', w') \<Longrightarrow> reachable pg s'"
| after_results: "reachable pg s \<Longrightarrow> Sim_results s = (r, s') \<Longrightarrow> reachable pg s'"

text \<open>What holds of every such object (shown below): the three dicts are those of the
  constructor, the containers written per trial hold dicts, the two expressions list the
  declared names of the bound algorithm, there is no vibration model, and \<open>self.res\<close> is
  empty until a run has completed.\<close>

definition sound :: "('w, 'e) sim \<Rightarrow> bool" where
  "sound s \<longleftrightarrow>
     (\<exists>f0. supported_in_constant s = init_supported_in_constant (new_containers f0) (imu s)
          \<and> supported_in_varying s = init_supported_in_varying (new_containers f0) (imu s)
          \<and> supported_out s = init_supported_out (new_containers f0)) \<and>
     (\<forall>n \<in> set per_trial_names. \<exists>d m. objs s n = Some d \<and> data d = Dict m) \<and>
     (\<forall>a. algo s = Some a \<longrightarrow>
          algo_in_expr s = LBracket # map (in_item (supported_in_constant s)) (input_names a) @ [RBracket]
        \<and> algo_out_expr s = LBracket # map Self_data_at (output_names a) @ [RBracket]
        \<and> (\<forall>n \<in> set (input_names a). supported_in_constant s (Name n) \<noteq> None
                \<or> supported_in_varying s (Name n) \<noteq> None)
        \<and> (\<forall>n \<in> set (output_names a). supported_out s (Name n) \<noteq> None)) \<and>
     vib_def s = None \<and>
     (\<not> sim_complete s \<longrightarrow> res s = Map.empty)"

text \<open>\<open>grows I s s'\<close>: \<open>s'\<close> differs from \<open>s\<close> only in dict entries of trial indices in
  \<open>I\<close>, and no entry has been deleted.\<close>

definition entry_grows :: "int set \<Rightarrow> sim_data option \<Rightarrow> sim_data option \<Rightarrow> bool" where
  "entry_grows I x y \<longleftrightarrow>
     y = x \<or>
     (\<exists>d m m'. x = Some d \<and> data d = Dict m \<and> y = Some (d\<lparr>data := Dict m'\<rparr>)
         \<and> (\<forall>j. j \<notin> I \<longrightarrow> m' j = m j) \<and> (\<forall>j. m j \<noteq> None \<longrightarrow> m' j \<noteq> None))"

definition grows :: "int set \<Rightarrow> ('w, 'e) sim \<Rightarrow> ('w, 'e) sim \<Rightarrow> bool" where
  "grows I s s' \<longleftrightarrow> s' = s\<lparr>objs := objs s'\<rparr> \<and> (\<forall>n. entry_grows I (objs s n) (objs s' n))"

text \<open>Trial \<open>i\<close> has its data: the sensor containers that are enabled and the declared
  outputs hold an entry for \<open>i\<close>.\<close>

definition populated :: "('w, 'e) sim \<Rightarrow> int \<Rightarrow> bool" where
  "populated s i \<longleftrightarrow>
     slot s ''accel'' i \<noteq> None \<and> slot s ''gyro'' i \<noteq> None \<and>
     (gps (imu s) \<longrightarrow> slot s ''gps'' i \<noteq> None) \<and>
     (magnetometer (imu s) \<longrightarrow> slot s ''mag'' i \<noteq> None) \<and>
     (\<forall>n \<in> declared_outputs s. slot s n i \<noteq> None)"

text \<open>The attributes of the containers other than \<open>data\<close> are those the constructor
  gave them: no method of \<open>Sim\<close> assigns to them.\<close>

definition static :: "('w, 'e) sim \<Rightarrow> bool" where
  "static s \<longleftrightarrow>
     (\<exists>f0. \<forall>n. case new_containers f0 n of
                  None \<Rightarrow> objs s n = None
                | Some d0 \<Rightarrow> (\<exists>p. objs s n = Some (d0\<lparr>data := p\<rparr>)))"

text \<open>What \<open>plot\<close> hands to matplotlib for the accelerometer data of one trial.\<close>

definition accel_figure :: "('w, 'e) sim \<Rightarrow> int \<Rightarrow> real list list \<Rightarrow> figure" where
  "accel_figure s i rows =
     \<lparr>fig_title = ''accel_'' @ str_int i, fig_x = data (attr (objs s) ''time''),
      fig_y = Arr2 rows, fig_logx = False, fig_logy = False, fig_grid = ''on'',
      fig_legend = Some [''accel_x'', ''accel_y'', ''accel_z'']\<rparr>"

section \<open>Example configurations\<close>

text \<open>A two-row trajectory table, a sensor configuration with the two switches, an
  algorithm that returns one array per declared output, and a \<open>pathgen\<close> whose hidden
  state counts the sensor calls and whose accelerometer model raises from the call
  numbered \<open>limit\<close> on.\<close>

definition ex_waypoints :: pyval where
  "ex_waypoints = Arr2 [[34, 108, 0, 0, 0, 0, 0, 0, 0], [1, 0, 0, 0, 5, 0, 0, 10, 0]]"

definition ex_imu :: "bool \<Rightarrow> bool \<Rightarrow> unit imu_model" where
  "ex_imu g m = \<lparr>gps = g, magnetometer = m, accel_err = (), gyro_err = (), gps_err = (), mag_err = ()\<rparr>"

definition ex_algo :: "string list \<Rightarrow> string list \<Rightarrow> nat algorithm" where
  "ex_algo ins outs =
     \<lparr>input_names = ins, output_names = outs,
      algo_run = (\<lambda>args w. (None, w)),
      get_results = (\<lambda>w. (Inr (map (\<lambda>n. Arr1 [real w]) outs), w))\<rparr>"

definition ex_rtn :: pathgen_rtn where
  "ex_rtn = \<lparr>rtn_nav = [[0, 1, 2, 3, 4, 5, 6, 7, 8, 9]], rtn_imu = [[0, 1, 2, 3, 4, 5, 6]],
             rtn_gps = [[0, 1, 2, 3, 4, 5, 6]], rtn_mag = [[0, 1, 2, 3]]\<rparr>"

definition ex_pathgen :: "nat \<Rightarrow> (nat, unit) pathgen" where
  "ex_pathgen limit =
     \<lparr>path_gen = (\<lambda>ini mdef odef mob frame mg w. (Inr ex_rtn, w)),
      acc_gen = (\<lambda>f ref err vib w.
                   if limit \<le> w then (Inl (ValueError ''sensor fault''), Suc w)
                   else (Inr (Arr2 [[real w, 0, 0]]), Suc w)),
      gyro_gen = (\<lambda>f ref err w. (Inr (Arr2 [[real w, 0, 0]]), Suc w)),
      gps_gen = (\<lambda>ref err frame w. (Inr (Arr2 [[real w, 0, 0, 0, 0, 0]]), Suc w)),
      mag_gen = (\<lambda>ref err w. (Inr (Arr2 [[real w, 0, 0]]), Suc w))\<rparr>"

text \<open>The object of the examples below: GPS and magnetometer off, an algorithm that reads
  \<open>gyro\<close> and produces \<open>pos\<close>.\<close>

definition ex_init :: "error + (nat, unit) sim" where
  "ex_init = Sim_init [100, 10, 0] (ex_imu False False) ex_waypoints (Str ''flight'')
               (Str ''2g_random'') (Some (ex_algo [''gyro''] [''pos'']))"

section \<open>Construction: the containers and the three dicts\<close>

lemma lower_on: "lower ''on'' = ''on''"
  by (simp add: lower_def)

lemma Sim_data_init_on:
  "Sim_data_init nm desc pl lx ly ''on'' lg pf =
     \<lparr>name = nm, description = desc, plottable = pl, logx = lx, logy = ly, grid = ''on'',
      legend = lg, pre_func = pf, data = Dict Map.empty\<rparr>"
  by (simp add: Sim_data_init_def lower_on)

lemma nc_name:
  "name (attr (new_containers f) ''fs'') = ''fs''"
  "name (attr (new_containers f) ''ref_frame'') = ''ref_frame''"
  "name (attr (new_containers f) ''ref_pos'') = ''ref_pos''"
  "name (attr (new_containers f) ''ref_vel'') = ''ref_vel''"
  "name (attr (new_containers f) ''ref_att'') = ''ref_att''"
  "name (attr (new_containers f) ''ref_gyro'') = ''ref_gyro''"
  "name (attr (new_containers f) ''ref_accel'') = ''ref_accel''"
  "name (attr (new_containers f) ''ref_gps'') = ''ref_gps''"
  "name (attr (new_containers f) ''gps_time'') = ''gps_time''"
  "name (attr (new_containers f) ''ref_mag'') = ''ref_mag''"
  "name (attr (new_containers f) ''time'') = ''time''"
  "name (attr (new_containers f) ''gyro'') = ''gyro''"
  "name (attr (new_containers f) ''accel'') = ''accel''"
  "name (attr (new_containers f) ''gps'') = ''gps''"
  "name (attr (new_containers f) ''mag'') = ''mag''"
  "name (attr (new_containers f) ''pos'') = ''pos''"
  "name (attr (new_containers f) ''vel'') = ''vel''"
  "name (attr (new_containers f) ''att_quat'') = ''att_quat''"
  "name (attr (new_containers f) ''att_euler'') = ''att_euler''"
  "name (attr (new_containers f) ''wb'') = ''wb''"
  "name (attr (new_containers f) ''ab'') = ''ab''"
  "name (attr (new_containers f) ''av_t'') = ''av_t''"
  "name (attr (new_containers f) ''av_gyro'') = ''av_gyro''"
  "name (attr (new_containers f) ''av_accel'') = ''av_accel''"
  by (simp_all add: new_containers_def attr_def Sim_data_init_on)

lemma nc_description:
  "description (attr (new_containers f) ''fs'') = ''sample frequency of imu''"
  "description (attr (new_containers f) ''ref_frame'') = ''reference frame''"
  "description (attr (new_containers f) ''ref_pos'') = ''true pos''"
  "description (attr (new_containers f) ''ref_vel'') = ''true vel''"
  "description (attr (new_containers f) ''ref_att'') = ''true attitude (Euler angles, ZYX)''"
  "description (attr (new_containers f) ''ref_gyro'') = ''true angular velocity''"
  "description (attr (new_containers f) ''ref_accel'') = ''true accel''"
  "description (attr (new_containers f) ''ref_gps'') = ''true GPS pos/vel''"
  "description (attr (new_containers f) ''gps_time'') = ''GPS sample time''"
  "description (attr (new_containers f) ''ref_mag'') = ''true magnetic field''"
  "description (attr (new_containers f) ''time'') = ''sample time, start from 1''"
  "description (attr (new_containers f) ''gyro'') = ''gyro measurements''"
  "description (attr (new_containers f) ''accel'') = ''accel measurements''"
  "description (attr (new_containers f) ''gps'') = ''GPS measurements''"
  "description (attr (new_containers f) ''mag'') = ''magnetometer measurements''"
  "description (attr (new_containers f) ''pos'') = ''sim pos''"
  "description (attr (new_containers f) ''vel'') = ''sim vel''"
  "description (attr (new_containers f) ''att_quat'') = ''sim att (quaternion)''"
  "description (attr (new_containers f) ''att_euler'') = ''sim att (Euler angles, ZYX)''"
  "description (attr (new_containers f) ''wb'') = ''gyro bias estimation''"
  "description (attr (new_containers f) ''ab'') = ''accel bias estimation''"
  "description (attr (new_containers f) ''av_t'') = ''Allan var time''"
  "description (attr (new_containers f) ''av_gyro'') = ''Allan var of gyro''"
  "description (attr (new_containers f) ''av_accel'') = ''Allan var of accel''"
  by (simp_all add: new_containers_def attr_def Sim_data_init_on)

text \<open>The three dicts, key by key.\<close>

lemma supported_in_constant_eq:
  "init_supported_in_constant (new_containers f) im =
     (\<lambda>k. case k of
        Name n \<Rightarrow> map_of ([(''fs'', ''sample frequency of imu''), (''ref_frame'', ''reference frame''),
            (''ref_pos'', ''true pos''), (''ref_vel'', ''true vel''),
            (''ref_att'', ''true attitude (Euler angles, ZYX)''),
            (''ref_gyro'', ''true angular velocity''), (''ref_accel'', ''true accel'')]
           @ (if gps im then [(''ref_gps'', ''true GPS pos/vel'')] else [])
           @ (if magnetometer im then [(''ref_mag'', ''true magnetic field'')] else [])) n
      | Obj n \<Rightarrow> (if gps im \<and> n = ''gps_time'' then Some ''GPS sample time'' else None))"
  by (rule ext)
    (simp add: init_supported_in_constant_def nc_name nc_description Let_def split: key.splits)

lemma supported_in_varying_eq:
  "init_supported_in_varying (new_containers f) im =
     (\<lambda>k. case k of
        Name n \<Rightarrow> map_of ([(''gyro'', ''gyro measurements''), (''accel'', ''accel measurements'')]
           @ (if gps im then [(''gps'', ''GPS measurements'')] else [])
           @ (if magnetometer im then [(''mag'', ''magnetometer measurements'')] else [])) n
      | Obj n \<Rightarrow> None)"
  by (rule ext)
    (simp add: init_supported_in_varying_def nc_name nc_description Let_def split: key.splits)

lemma supported_out_eq:
  "init_supported_out (new_containers f) =
     (\<lambda>k. case k of
        Name n \<Rightarrow> map_of [(''pos'', ''sim pos''), (''vel'', ''sim vel''),
            (''att_quat'', ''sim att (quaternion)''), (''att_euler'', ''sim att (Euler angles, ZYX)''),
            (''wb'', ''gyro bias estimation''), (''ab'', ''accel bias estimation''),
            (''av_t'', ''Allan var time''), (''av_gyro'', ''Allan var of gyro''),
            (''av_accel'', ''Allan var of accel'')] n
      | Obj n \<Rightarrow> None)"
  by (rule ext) (simp add: init_supported_out_def nc_name nc_description split: key.splits)

lemma registry_indep:
  "init_supported_in_constant (new_containers f) im = init_supported_in_constant (new_containers g) im"
  "init_supported_in_varying (new_containers f) im = init_supported_in_varying (new_containers g) im"
  "init_supported_out (new_containers f) = init_supported_out (new_containers g)"
  by (simp_all only: supported_in_constant_eq supported_in_varying_eq supported_out_eq)

subsection \<open>What a constructed object holds\<close>

lemma init_attributes_InrD:
  assumes "init_attributes fs im wp mode env alg = Inr s"
  shows "\<exists>f0. tuple_get fs 0 = Inr f0 \<and> objs s = new_containers f0
     \<and> supported_in_constant s = init_supported_in_constant (new_containers f0) im
     \<and> supported_in_varying s = init_supported_in_varying (new_containers f0) im
     \<and> supported_out s = init_supported_out (new_containers f0)
     \<and> imu s = im \<and> algo s = alg \<and> \<not> sim_complete s \<and> sim_count s = 1
     \<and> vib_def s = None \<and> res s = Map.empty \<and> supported_plot s = Map.empty
     \<and> algo_in_expr s = [LBracket] \<and> algo_out_expr s = [LBracket]"
  using assms
  by (auto simp: init_attributes_def init_vib_def_def split: sum.splits pyarg.splits)

lemma init_attributes_algo:
  "init_attributes fs im wp mode env alg = Inr s \<Longrightarrow>
     init_attributes fs im wp mode env alg' = Inr (s\<lparr>algo := alg'\<rparr>)"
  by (auto simp: init_attributes_def split: sum.splits)

lemma init_attributes_Inl:
  "init_attributes fs im wp mode env alg = Inl e \<Longrightarrow>
     init_attributes fs im wp mode env alg' = Inl e"
  by (auto simp: init_attributes_def split: sum.splits)

lemma parse_in_ok:
  "\<forall>n \<in> set ins. c (Name n) \<noteq> None \<or> v (Name n) \<noteq> None \<Longrightarrow>
     parse_in c v ins e = (True, e @ map (in_item c) ins)"
  by (induction ins arbitrary: e) (auto simp: in_item_def)

lemma parse_in_bad:
  "n \<in> set ins \<Longrightarrow> c (Name n) = None \<Longrightarrow> v (Name n) = None \<Longrightarrow> fst (parse_in c v ins e) = False"
  by (induction ins arbitrary: e) auto

lemma parse_out_ok:
  "\<forall>n \<in> set outs. out (Name n) \<noteq> None \<Longrightarrow>
     parse_out out outs e = (True, e @ map Self_data_at outs)"
  by (induction outs arbitrary: e) auto

lemma parse_out_bad:
  "n \<in> set outs \<Longrightarrow> out (Name n) = None \<Longrightarrow> fst (parse_out out outs e) = False"
  by (induction outs arbitrary: e) auto

lemma parse_algo_in_out_bad:
  assumes "algo s = Some a"
    and "n \<in> set (input_names a) \<and> supported_in_constant s (Name n) = None
            \<and> supported_in_varying s (Name n) = None
         \<or> n \<in> set (output_names a) \<and> supported_out s (Name n) = None"
  shows "fst (parse_algo_in_out s) = Inr False"
proof (cases "fst (parse_in (supported_in_constant s) (supported_in_varying s)
                     (input_names a) (algo_in_expr s))")
  case False
  with assms(1) show ?thesis
    by (auto simp: parse_algo_in_out_def split: prod.splits)
next
  case True
  with assms(2) have "n \<in> set (output_names a) \<and> supported_out s (Name n) = None"
    using parse_in_bad by fastforce
  then have "fst (parse_out (supported_out s) (output_names a) (algo_out_expr s)) = False"
    using parse_out_bad by fastforce
  with assms(1) show ?thesis
    by (auto simp: parse_algo_in_out_def split: prod.splits bool.splits)
qed

lemma check_algorithm_bad:
  assumes "algo s = Some a'"
    and "n \<in> set (input_names a') \<and> supported_in_constant s (Name n) = None
            \<and> supported_in_varying s (Name n) = None
         \<or> n \<in> set (output_names a') \<and> supported_out s (Name n) = None"
  shows "check_algorithm s a = Inl (ValueError ''check input and output definitions of the algorithm.'')"
  using parse_algo_in_out_bad [OF assms]
  by (auto simp: check_algorithm_def split: prod.splits sum.splits bool.splits)

lemma check_algorithm_ok:
  assumes "algo s = Some a" and "input_names a \<noteq> []" and "output_names a \<noteq> []"
    and "\<forall>n \<in> set (input_names a). supported_in_constant s (Name n) \<noteq> None
            \<or> supported_in_varying s (Name n) \<noteq> None"
    and "\<forall>n \<in> set (output_names a). supported_out s (Name n) \<noteq> None"
  shows "check_algorithm s a =
     Inr (s\<lparr>algo_in_expr := algo_in_expr s @ map (in_item (supported_in_constant s)) (input_names a)
                               @ [RBracket],
            algo_out_expr := algo_out_expr s @ map Self_data_at (output_names a) @ [RBracket]\<rparr>)"
  using assms
  by (simp add: check_algorithm_def parse_algo_in_out_def parse_in_ok parse_out_ok)

lemma check_algorithm_InrD:
  "check_algorithm s a = Inr s' \<Longrightarrow>
     \<exists>e_in e_out. s' = s\<lparr>algo_in_expr := e_in, algo_out_expr := e_out\<rparr>"
  by (auto simp: check_algorithm_def parse_algo_in_out_def
      split: sum.splits option.splits prod.splits if_splits bool.splits)

lemma Sim_init_InrD:
  assumes "Sim_init fs im wp mode env alg = Inr s"
  shows "\<exists>f0. tuple_get fs 0 = Inr f0 \<and> objs s = new_containers f0
     \<and> supported_in_constant s = init_supported_in_constant (new_containers f0) im
     \<and> supported_in_varying s = init_supported_in_varying (new_containers f0) im
     \<and> supported_out s = init_supported_out (new_containers f0)
     \<and> imu s = im \<and> algo s = alg \<and> \<not> sim_complete s \<and> sim_count s = 1
     \<and> vib_def s = None \<and> res s = Map.empty \<and> supported_plot s = Map.empty"
proof -
  from assms obtain s0 where s0: "init_attributes fs im wp mode env alg = Inr s0"
    by (auto simp: Sim_init_def split: sum.splits)
  have "\<exists>e_in e_out. s = s0\<lparr>algo_in_expr := e_in, algo_out_expr := e_out\<rparr>"
  proof (cases alg)
    case None
    with assms s0 have "s = s0" by (simp add: Sim_init_def)
    then have "s = s0\<lparr>algo_in_expr := algo_in_expr s0, algo_out_expr := algo_out_expr s0\<rparr>"
      by simp
    then show ?thesis by blast
  next
    case (Some a)
    with assms s0 show ?thesis
      by (auto simp: Sim_init_def dest: check_algorithm_InrD)
  qed
  with init_attributes_InrD [OF s0] show ?thesis by auto
qed

subsection \<open>The trajectory table\<close>

lemma read_motion_bad:
  "length rows < 2 \<or> length (hd rows) \<noteq> 9 \<Longrightarrow>
     read_motion (Arr2 rows) = Inl (ValueError motion_msg)"
  by (cases rows) (auto simp: read_motion_def shape_def tuple_get_def)

lemma read_motion_ok:
  "2 \<le> length rows \<Longrightarrow> length (hd rows) = 9 \<Longrightarrow> \<exists>r. read_motion (Arr2 rows) = Inr r"
  by (cases rows) (auto simp: read_motion_def shape_def tuple_get_def)

lemma init_attributes_bad_table:
  "fs \<noteq> [] \<Longrightarrow> length rows < 2 \<or> length (hd rows) \<noteq> 9 \<Longrightarrow>
     init_attributes fs im (Arr2 rows) mode env alg = Inl (ValueError motion_msg)"
  by (simp add: init_attributes_def tuple_get_def read_motion_bad)

lemma init_attributes_ok:
  assumes "fs = f0 # rest" and "2 \<le> length rows" and "length (hd rows) = 9"
    and "gps im \<longrightarrow> rest \<noteq> []" and "mode \<noteq> Other" and "env \<noteq> Other"
  shows "\<exists>s. init_attributes fs im (Arr2 rows) mode env alg = Inr s"
proof -
  from read_motion_ok [OF assms(2,3)] obtain r where r: "read_motion (Arr2 rows) = Inr r" ..
  have o: "\<exists>d. init_output_def fs f0 im = Inr d"
    using assms(1,4) by (cases rest) (auto simp: init_output_def_def tuple_get_def)
  have m: "\<exists>d. init_mobility mode = Inr d"
    using assms(5) by (cases mode) (auto simp: init_mobility_def)
  have v: "\<exists>d. init_vib_def env = Inr d"
    using assms(6) by (cases env) (auto simp: init_vib_def_def)
  from r o m v assms(1) show ?thesis
    by (cases r) (auto simp: init_attributes_def tuple_get_def)
qed

lemma Sim_init_ok:
  assumes "fs = f0 # rest" and "2 \<le> length rows" and "length (hd rows) = 9"
    and "gps im \<longrightarrow> rest \<noteq> []" and "mode \<noteq> Other" and "env \<noteq> Other"
    and "\<forall>a. alg = Some a \<longrightarrow> accepts f0 im a"
  shows "\<exists>s. Sim_init fs im (Arr2 rows) mode env alg = Inr s"
proof -
  from init_attributes_ok [OF assms(1-6)] obtain s
    where s: "init_attributes fs im (Arr2 rows) mode env alg = Inr s" ..
  show ?thesis
  proof (cases alg)
    case None
    with s show ?thesis by (simp add: Sim_init_def)
  next
    case (Some a)
    from init_attributes_InrD [OF s] assms(1) have
      reg: "supported_in_constant s = init_supported_in_constant (new_containers f0) im"
           "supported_in_varying s = init_supported_in_varying (new_containers f0) im"
           "supported_out s = init_supported_out (new_containers f0)"
           "algo s = alg"
      by (auto simp: tuple_get_def)
    from assms(7) Some have "accepts f0 im a" by simp
    with reg Some have "\<exists>s'. check_algorithm s a = Inr s'"
      by (subst check_algorithm_ok) (auto simp: accepts_def)
    with s Some show ?thesis by (simp add: Sim_init_def)
  qed
qed

lemma Sim_init_bad_table:
  "fs \<noteq> [] \<Longrightarrow> length rows < 2 \<or> length (hd rows) \<noteq> 9 \<Longrightarrow>
     Sim_init fs im (Arr2 rows) mode env alg = Inl (ValueError motion_msg)"
  by (simp add: Sim_init_def init_attributes_bad_table)

lemma ex_Sim_init:
  "\<exists>s. Sim_init [100, 10, 0] (ex_imu g m) ex_waypoints (Str ''flight'') (Str ''2g_random'')
          (None :: nat algorithm option) = Inr s"
  unfolding ex_waypoints_def
  by (rule Sim_init_ok [where ?f0.0 = 100 and rest = "[10, 0]"]) simp_all

lemma read_motion_one_axis:
  "2 \<le> length xs \<Longrightarrow> read_motion (Arr1 xs) = Inl IndexError"
  "read_motion (Num x) = Inl IndexError"
  "read_motion (Arr1 []) = Inl (ValueError motion_msg)"
  by (simp_all add: read_motion_def shape_def tuple_get_def)

text \<open>
  Claim C7, evaluated on the code. The claim: a trajectory table with fewer than 2 rows, or
  with a column count other than 9, makes construction fail with the configuration error,
  the \<open>ValueError\<close> of line 163 (its message asks for ``nine columns and at least two
  rows''). The argument \<open>waypoints\<close> is what \<open>np.genfromtxt\<close> returns: for a file with a
  single row (or a single column) that is an array with one axis, for a file with a single
  value a number. For a one-axis array with at least 2 entries, such as the single row of
  nine numbers, \<open>shape[0] < 2\<close> is false and \<open>shape[1]\<close> raises \<open>IndexError\<close> in the
  condition of line 162; for a number \<open>shape[0]\<close> raises it. Construction then fails with
  \<open>IndexError\<close> and never reaches the \<open>ValueError\<close> (given only that \<open>fs[0]\<close> can be
  read, which happens before).
\<close>

theorem one_axis_table_raises_IndexError:
  assumes "fs \<noteq> []" and "2 \<le> length xs"
  shows "Sim_init fs im (Arr1 xs) mode env alg = Inl IndexError
       \<and> Sim_init fs im (Num x) mode env alg = Inl IndexError"
  using assms
  by (simp add: Sim_init_def init_attributes_def tuple_get_def read_motion_one_axis)

text \<open>Claim C7 on the single row of nine numbers, on a one-axis array of two numbers and
  on a single number; the example table with its two rows is accepted.\<close>

theorem one_axis_table_raises_IndexError_witness:
  "Sim_init [100, 10, 0] (ex_imu True False) (Arr1 [34, 108, 0, 0, 0, 0, 0, 0, 0])
       (Str ''flight'') (Str ''2g_random'') (None :: nat algorithm option)
     = Inl IndexError
   \<and> Sim_init [100, 10, 0] (ex_imu True False) (Arr1 [1, 2])
       (Str ''flight'') (Str ''2g_random'') (None :: nat algorithm option)
     = Inl IndexError
   \<and> Sim_init [100, 10, 0] (ex_imu True False) (Num 34)
       (Str ''flight'') (Str ''2g_random'') (None :: nat algorithm option)
     = Inl IndexError
   \<and> (\<exists>s. Sim_init [100, 10, 0] (ex_imu True False) ex_waypoints
       (Str ''flight'') (Str ''2g_random'') (None :: nat algorithm option) = Inr s)"
proof -
  have 1: "[100, 10, 0 :: real] \<noteq> []" by simp
  have 2: "2 \<le> length [34, 108, 0, 0, 0, 0, 0, 0, 0 :: real]" by simp
  have 3: "2 \<le> length [1, 2 :: real]" by simp
  from one_axis_table_raises_IndexError [OF 1 2, of "ex_imu True False" "Str ''flight''"
         "Str ''2g_random''" "None :: nat algorithm option" 34]
       one_axis_table_raises_IndexError [OF 1 3, of "ex_imu True False" "Str ''flight''"
         "Str ''2g_random''" "None :: nat algorithm option" 34]
       ex_Sim_init [of True False]
  show ?thesis by simp
qed

subsection \<open>The check of the algorithm\<close>

lemma Sim_init_algo_bad:
  fixes a :: "'w algorithm"
  assumes "n \<in> set (input_names a)
             \<and> init_supported_in_constant (new_containers f) im (Name n) = None
             \<and> init_supported_in_varying (new_containers f) im (Name n) = None
           \<or> n \<in> set (output_names a) \<and> init_supported_out (new_containers f) (Name n) = None"
    and "init_attributes fs im wp mode env (Some a) = Inr s"
  shows "check_algorithm s a = Inl (ValueError ''check input and output definitions of the algorithm.'')"
proof -
  from init_attributes_InrD [OF assms(2)] obtain f0 where
    reg: "supported_in_constant s = init_supported_in_constant (new_containers f0) im"
         "supported_in_varying s = init_supported_in_varying (new_containers f0) im"
         "supported_out s = init_supported_out (new_containers f0)"
         "algo s = Some a"
    by blast
  have "n \<in> set (input_names a) \<and> supported_in_constant s (Name n) = None
            \<and> supported_in_varying s (Name n) = None
         \<or> n \<in> set (output_names a) \<and> supported_out s (Name n) = None"
    using assms(1) unfolding reg supported_in_constant_eq supported_in_varying_eq supported_out_eq .
  with reg(4) show ?thesis by (rule check_algorithm_bad)
qed

text \<open>
  Claim C1. When the algorithm declares an input name that is a string key of neither
  \<open>supported_in_constant\<close> nor \<open>supported_in_varying\<close>, or an output name that is no
  string key of \<open>supported_out\<close> (the dicts as lines 125 to 154 build them for the sensor
  configuration), \<open>Sim.__init__\<close> raises: the caller gets an error and no object, so
  nothing of the half-built expressions is kept and there is no object whose \<open>run\<close> could
  call the algorithm. When the other arguments are valid (construction without the
  algorithm succeeds), the error is the \<open>ValueError\<close> of line 214.
\<close>

theorem bind_rejects_unsupported_name:
  fixes a :: "'w algorithm"
  assumes "n \<in> set (input_names a)
             \<and> init_supported_in_constant (new_containers f) im (Name n) = None
             \<and> init_supported_in_varying (new_containers f) im (Name n) = None
           \<or> n \<in> set (output_names a) \<and> init_supported_out (new_containers f) (Name n) = None"
  shows "(\<exists>e. Sim_init fs im wp mode env (Some a) = Inl e) \<and>
         ((\<exists>s :: ('w, 'e) sim. Sim_init fs im wp mode env None = Inr s) \<longrightarrow>
            Sim_init fs im wp mode env (Some a)
              = Inl (ValueError ''check input and output definitions of the algorithm.''))"
proof (cases "init_attributes fs im wp mode env (Some a)")
  case (Inl e)
  have 1: "Sim_init fs im wp mode env (Some a) = Inl e"
    by (simp add: Sim_init_def Inl)
  have 2: "Sim_init fs im wp mode env (None :: 'w algorithm option) = Inl e"
    by (simp add: Sim_init_def init_attributes_Inl [OF Inl])
  from 1 2 show ?thesis by simp
next
  case (Inr s)
  from Sim_init_algo_bad [OF assms Inr] Inr show ?thesis
    by (simp add: Sim_init_def)
qed

text \<open>Claim C1 on four algorithms: an unknown input, a GPS input with GPS off, the input
  \<open>gps_time\<close> with GPS on, and an output that is an input name.\<close>

theorem bind_rejects_unsupported_name_witness:
  "Sim_init [100, 10, 0] (ex_imu False False) ex_waypoints (Str ''flight'') (Str ''2g_random'')
       (Some (ex_algo [''fs'', ''unknown_sensor''] [''pos'']))
     = Inl (ValueError ''check input and output definitions of the algorithm.'')
   \<and> Sim_init [100, 10, 0] (ex_imu False False) ex_waypoints (Str ''flight'') (Str ''2g_random'')
       (Some (ex_algo [''fs'', ''gps''] [''pos'']))
     = Inl (ValueError ''check input and output definitions of the algorithm.'')
   \<and> Sim_init [100, 10, 0] (ex_imu True False) ex_waypoints (Str ''flight'') (Str ''2g_random'')
       (Some (ex_algo [''fs'', ''gps_time''] [''pos'']))
     = Inl (ValueError ''check input and output definitions of the algorithm.'')
   \<and> Sim_init [100, 10, 0] (ex_imu True False) ex_waypoints (Str ''flight'') (Str ''2g_random'')
       (Some (ex_algo [''fs''] [''pos'', ''gyro'']))
     = Inl (ValueError ''check input and output definitions of the algorithm.'')"
proof -
  have ok: "\<exists>s :: (nat, unit) sim. Sim_init [100, 10, 0] (ex_imu g m) ex_waypoints (Str ''flight'')
                   (Str ''2g_random'') None = Inr s" for g m
    unfolding ex_waypoints_def
    by (rule Sim_init_ok [where ?f0.0 = 100 and rest = "[10, 0]"]) simp_all
  have 1: "''unknown_sensor'' \<in> set (input_names (ex_algo [''fs'', ''unknown_sensor''] [''pos'']))
     \<and> init_supported_in_constant (new_containers 0) (ex_imu False False) (Name ''unknown_sensor'') = None
     \<and> init_supported_in_varying (new_containers 0) (ex_imu False False) (Name ''unknown_sensor'') = None
     \<or> ''unknown_sensor'' \<in> set (output_names (ex_algo [''fs'', ''unknown_sensor''] [''pos'']))
     \<and> init_supported_out (new_containers 0) (Name ''unknown_sensor'') = None"
    by (simp add: ex_algo_def ex_imu_def supported_in_constant_eq supported_in_varying_eq)
  have 2: "''gps'' \<in> set (input_names (ex_algo [''fs'', ''gps''] [''pos'']))
     \<and> init_supported_in_constant (new_containers 0) (ex_imu False False) (Name ''gps'') = None
     \<and> init_supported_in_varying (new_containers 0) (ex_imu False False) (Name ''gps'') = None
     \<or> ''gps'' \<in> set (output_names (ex_algo [''fs'', ''gps''] [''pos'']))
     \<and> init_supported_out (new_containers 0) (Name ''gps'') = None"
    by (simp add: ex_algo_def ex_imu_def supported_in_constant_eq supported_in_varying_eq)
  have 3: "''gps_time'' \<in> set (input_names (ex_algo [''fs'', ''gps_time''] [''pos'']))
     \<and> init_supported_in_constant (new_containers 0) (ex_imu True False) (Name ''gps_time'') = None
     \<and> init_supported_in_varying (new_containers 0) (ex_imu True False) (Name ''gps_time'') = None
     \<or> ''gps_time'' \<in> set (output_names (ex_algo [''fs'', ''gps_time''] [''pos'']))
     \<and> init_supported_out (new_containers 0) (Name ''gps_time'') = None"
    by (simp add: ex_algo_def ex_imu_def supported_in_constant_eq supported_in_varying_eq)
  have 4: "''gyro'' \<in> set (input_names (ex_algo [''fs''] [''pos'', ''gyro'']))
     \<and> init_supported_in_constant (new_containers 0) (ex_imu True False) (Name ''gyro'') = None
     \<and> init_supported_in_varying (new_containers 0) (ex_imu True False) (Name ''gyro'') = None
     \<or> ''gyro'' \<in> set (output_names (ex_algo [''fs''] [''pos'', ''gyro'']))
     \<and> init_supported_out (new_containers 0) (Name ''gyro'') = None"
    by (simp add: ex_algo_def ex_imu_def supported_out_eq)
  show ?thesis
    using bind_rejects_unsupported_name [OF 1, of "[100, 10, 0]" ex_waypoints "Str ''flight''" "Str ''2g_random''"]
      bind_rejects_unsupported_name [OF 2, of "[100, 10, 0]" ex_waypoints "Str ''flight''" "Str ''2g_random''"]
      bind_rejects_unsupported_name [OF 3, of "[100, 10, 0]" ex_waypoints "Str ''flight''" "Str ''2g_random''"]
      bind_rejects_unsupported_name [OF 4, of "[100, 10, 0]" ex_waypoints "Str ''flight''" "Str ''2g_random''"]
      ok
    by blast
qed

subsection \<open>The key of the GPS time base\<close>

text \<open>
  Claim C2, evaluated on the code. With GPS enabled, every constructed object has the
  description of the GPS time base under the key that is the container object itself
  (line 138 writes \<open>self.gps_time\<close>, not \<open>self.gps_time.name\<close>), and the string
  \<open>gps_time\<close> is no key of \<open>supported_in_constant\<close>.
\<close>

theorem gps_time_key_is_the_object:
  assumes "Sim_init fs im wp mode env alg = Inr s" and "gps im"
  shows "supported_in_constant s (Name ''gps_time'') = None
       \<and> supported_in_constant s (Obj ''gps_time'') = Some ''GPS sample time''"
proof -
  from Sim_init_InrD [OF assms(1)] obtain f0 where
    "supported_in_constant s = init_supported_in_constant (new_containers f0) im" by blast
  with assms(2) show ?thesis by (simp add: supported_in_constant_eq)
qed

text \<open>Claim C2 on the example arguments with GPS on.\<close>

theorem gps_time_key_is_the_object_witness:
  "\<exists>s. Sim_init [100, 10, 0] (ex_imu True False) ex_waypoints (Str ''flight'') (Str ''2g_random'')
          (None :: nat algorithm option) = Inr s
       \<and> supported_in_constant s (Name ''gps_time'') = None
       \<and> supported_in_constant s (Obj ''gps_time'') = Some ''GPS sample time''"
proof -
  obtain s where s: "Sim_init [100, 10, 0] (ex_imu True False) ex_waypoints (Str ''flight'')
      (Str ''2g_random'') (None :: nat algorithm option) = Inr s"
    unfolding ex_waypoints_def
    using Sim_init_ok [where ?f0.0 = 100 and rest = "[10, 0]" and fs = "[100, 10, 0]"
        and im = "ex_imu True False" and mode = "Str ''flight''" and env = "Str ''2g_random''"
        and alg = "None :: nat algorithm option"
        and rows = "[[34, 108, 0, 0, 0, 0, 0, 0, 0], [1, 0, 0, 0, 5, 0, 0, 10, 0]]"]
    by auto
  have "gps (ex_imu True False)" by (simp add: ex_imu_def)
  from gps_time_key_is_the_object [OF s this] s show ?thesis by blast
qed

text \<open>The part of claim C2 that the code does satisfy.\<close>

lemma registry_flags:
  assumes "Sim_init fs im wp mode env alg = Inr s"
  shows "(supported_in_constant s (Name ''ref_gps'') \<noteq> None \<longleftrightarrow> gps im)"
    and "(supported_in_varying s (Name ''gps'') \<noteq> None \<longleftrightarrow> gps im)"
    and "(supported_in_constant s (Name ''ref_mag'') \<noteq> None \<longleftrightarrow> magnetometer im)"
    and "(supported_in_varying s (Name ''mag'') \<noteq> None \<longleftrightarrow> magnetometer im)"
    and "(supported_in_constant s (Obj ''gps_time'') \<noteq> None \<longleftrightarrow> gps im)"
    and "supported_in_varying s (Obj n) = None" and "supported_out s (Obj n) = None"
proof -
  from Sim_init_InrD [OF assms] obtain f0 where
    c: "supported_in_constant s = init_supported_in_constant (new_containers f0) im" and
    v: "supported_in_varying s = init_supported_in_varying (new_containers f0) im" and
    out: "supported_out s = init_supported_out (new_containers f0)"
    by blast
  show "(supported_in_constant s (Name ''ref_gps'') \<noteq> None \<longleftrightarrow> gps im)"
    by (simp add: c supported_in_constant_eq)
  show "(supported_in_varying s (Name ''gps'') \<noteq> None \<longleftrightarrow> gps im)"
    by (simp add: v supported_in_varying_eq)
  show "(supported_in_constant s (Name ''ref_mag'') \<noteq> None \<longleftrightarrow> magnetometer im)"
    by (simp add: c supported_in_constant_eq)
  show "(supported_in_varying s (Name ''mag'') \<noteq> None \<longleftrightarrow> magnetometer im)"
    by (simp add: v supported_in_varying_eq)
  show "(supported_in_constant s (Obj ''gps_time'') \<noteq> None \<longleftrightarrow> gps im)"
    by (simp add: c supported_in_constant_eq)
  show "supported_in_varying s (Obj n) = None"
    by (simp add: v supported_in_varying_eq)
  show "supported_out s (Obj n) = None"
    by (simp add: out supported_out_eq)
qed

section \<open>Running: what a trial changes\<close>

lemma and_then_cases:
  assumes "and_then r f = (x, st')"
  obtains e where "r = (Some e, st')" and "x = Some e"
        | st where "r = (None, st)" and "f st = (x, st')"
  using assms by (cases r) (auto simp: and_then_def split: option.splits)

lemma and_then_None [simp]: "and_then (None, st) f = f st"
  by (simp add: and_then_def)

lemma and_then_Some [simp]: "and_then (Some e, st) f = (Some e, st)"
  by (simp add: and_then_def)

lemma grows_refl: "grows I s s"
  by (simp add: grows_def entry_grows_def)

lemma grows_same:
  assumes "grows I s s'"
  shows "sim_complete s' = sim_complete s" "sim_count s' = sim_count s" "imu s' = imu s"
    "supported_in_constant s' = supported_in_constant s"
    "supported_in_varying s' = supported_in_varying s"
    "supported_out s' = supported_out s" "res s' = res s" "supported_plot s' = supported_plot s"
    "ini_pos_n s' = ini_pos_n s" "ini_vel_b s' = ini_vel_b s" "ini_att s' = ini_att s"
    "motion_def s' = motion_def s" "output_def s' = output_def s" "mobility s' = mobility s"
    "vib_def s' = vib_def s" "algo s' = algo s" "algo_in_expr s' = algo_in_expr s"
    "algo_out_expr s' = algo_out_expr s"
proof -
  from assms have e: "s' = s\<lparr>objs := objs s'\<rparr>" by (simp add: grows_def)
  show "sim_complete s' = sim_complete s" by (subst e) simp
  show "sim_count s' = sim_count s" by (subst e) simp
  show "imu s' = imu s" by (subst e) simp
  show "supported_in_constant s' = supported_in_constant s" by (subst e) simp
  show "supported_in_varying s' = supported_in_varying s" by (subst e) simp
  show "supported_out s' = supported_out s" by (subst e) simp
  show "res s' = res s" by (subst e) simp
  show "supported_plot s' = supported_plot s" by (subst e) simp
  show "ini_pos_n s' = ini_pos_n s" by (subst e) simp
  show "ini_vel_b s' = ini_vel_b s" by (subst e) simp
  show "ini_att s' = ini_att s" by (subst e) simp
  show "motion_def s' = motion_def s" by (subst e) simp
  show "output_def s' = output_def s" by (subst e) simp
  show "mobility s' = mobility s" by (subst e) simp
  show "vib_def s' = vib_def s" by (subst e) simp
  show "algo s' = algo s" by (subst e) simp
  show "algo_in_expr s' = algo_in_expr s" by (subst e) simp
  show "algo_out_expr s' = algo_out_expr s" by (subst e) simp
qed

lemma entry_grows_trans:
  assumes "entry_grows I x y" and "entry_grows J y z"
  shows "entry_grows (I \<union> J) x z"
proof (cases "y = x")
  case True
  with assms(2) show ?thesis unfolding entry_grows_def by blast
next
  case xy: False
  show ?thesis
  proof (cases "z = y")
    case True
    with assms(1) show ?thesis unfolding entry_grows_def by blast
  next
    case False
    from assms(1) xy obtain d m m' where 1: "x = Some d" "data d = Dict m"
      "y = Some (d\<lparr>data := Dict m'\<rparr>)" "\<forall>j. j \<notin> I \<longrightarrow> m' j = m j" "\<forall>j. m j \<noteq> None \<longrightarrow> m' j \<noteq> None"
      unfolding entry_grows_def by blast
    from assms(2) False obtain d2 m2 m2' where 2: "y = Some d2" "data d2 = Dict m2"
      "z = Some (d2\<lparr>data := Dict m2'\<rparr>)" "\<forall>j. j \<notin> J \<longrightarrow> m2' j = m2 j"
      "\<forall>j. m2 j \<noteq> None \<longrightarrow> m2' j \<noteq> None"
      unfolding entry_grows_def by blast
    from 1(3) 2(1,2) have e: "d2 = d\<lparr>data := Dict m'\<rparr>" "m2 = m'" by auto
    have "z = Some (d\<lparr>data := Dict m2'\<rparr>)" by (simp add: 2(3) e)
    moreover have "\<forall>j. j \<notin> I \<union> J \<longrightarrow> m2' j = m j" using 1(4) 2(4) e by simp
    moreover have "\<forall>j. m j \<noteq> None \<longrightarrow> m2' j \<noteq> None" using 1(5) 2(5) e by simp
    ultimately show ?thesis using 1(1,2) unfolding entry_grows_def by blast
  qed
qed

lemma entry_grows_slot:
  assumes "entry_grows I x y"
  shows "j \<notin> I \<Longrightarrow>
           (case y of None \<Rightarrow> None | Some d \<Rightarrow> (case data d of Dict m \<Rightarrow> m j | Val v \<Rightarrow> None))
         = (case x of None \<Rightarrow> None | Some d \<Rightarrow> (case data d of Dict m \<Rightarrow> m j | Val v \<Rightarrow> None))"
    and "(case x of None \<Rightarrow> None | Some d \<Rightarrow> (case data d of Dict m \<Rightarrow> m j | Val v \<Rightarrow> None)) \<noteq> None
          \<Longrightarrow> (case y of None \<Rightarrow> None | Some d \<Rightarrow> (case data d of Dict m \<Rightarrow> m j | Val v \<Rightarrow> None)) \<noteq> None"
  using assms unfolding entry_grows_def by auto

lemma grows_slot_outside: "grows I s s' \<Longrightarrow> j \<notin> I \<Longrightarrow> slot s' n j = slot s n j"
  unfolding grows_def slot_def by (rule entry_grows_slot(1)) auto

lemma grows_slot_kept: "grows I s s' \<Longrightarrow> slot s n j \<noteq> None \<Longrightarrow> slot s' n j \<noteq> None"
  unfolding grows_def slot_def by (rule entry_grows_slot(2)) auto

lemma grows_dict:
  assumes "grows I s s'" and "objs s n = Some d" and "data d = Dict m"
  shows "\<exists>d' m'. objs s' n = Some d' \<and> data d' = Dict m'"
proof -
  from assms(1) have "entry_grows I (objs s n) (objs s' n)" by (simp add: grows_def)
  with assms(2,3) show ?thesis unfolding entry_grows_def by auto
qed

lemma grows_trans:
  assumes "grows I s s'" and "grows J s' s''"
  shows "grows (I \<union> J) s s''"
proof -
  from assms have "s' = s\<lparr>objs := objs s'\<rparr>" "s'' = s'\<lparr>objs := objs s''\<rparr>"
    by (simp_all add: grows_def)
  then have "s'' = (s\<lparr>objs := objs s'\<rparr>)\<lparr>objs := objs s''\<rparr>" by simp
  then have e: "s'' = s\<lparr>objs := objs s''\<rparr>" by simp
  have "entry_grows (I \<union> J) (objs s n) (objs s'' n)" for n
    using assms entry_grows_trans [of I "objs s n" "objs s' n" J "objs s'' n"]
    by (simp add: grows_def)
  with e show ?thesis unfolding grows_def by blast
qed

lemma grows_mono:
  assumes "grows I s s'" and "I \<subseteq> J"
  shows "grows J s s'"
proof -
  from grows_trans [OF assms(1) grows_refl [of J s']] assms(2) show ?thesis
    by (simp add: Un_absorb1)
qed

lemma set_item_grows:
  assumes "set_item n i v s = Inr s'"
  shows "grows {i} s s'" and "slot s' n i = Some v"
proof -
  from assms obtain d m where d: "objs s n = Some d" "data d = Dict m"
    and s': "s' = s\<lparr>objs := (objs s)(n \<mapsto> d\<lparr>data := Dict (m(i \<mapsto> v))\<rparr>)\<rparr>"
    by (auto simp: set_item_def split: option.splits payload.splits)
  show "slot s' n i = Some v" by (simp add: s' slot_def)
  have "entry_grows {i} (objs s n') (objs s' n')" for n'
  proof (cases "n' = n")
    case True
    have "objs s' n = Some (d\<lparr>data := Dict (m(i \<mapsto> v))\<rparr>)" by (simp add: s')
    moreover have "\<forall>j. j \<notin> {i} \<longrightarrow> (m(i \<mapsto> v)) j = m j" by simp
    moreover have "\<forall>j. m j \<noteq> None \<longrightarrow> (m(i \<mapsto> v)) j \<noteq> None" by simp
    ultimately show ?thesis using d True unfolding entry_grows_def by blast
  next
    case False
    then show ?thesis by (simp add: s' entry_grows_def)
  qed
  moreover have "s' = s\<lparr>objs := objs s'\<rparr>" by (simp add: s')
  ultimately show "grows {i} s s'" unfolding grows_def by blast
qed

lemma set_item_dict:
  "objs s n = Some d \<Longrightarrow> data d = Dict m \<Longrightarrow> \<exists>s'. set_item n i v s = Inr s'"
  by (simp add: set_item_def)

lemma store_gen_grows:
  assumes "store_gen n i r s = (x, s', w')"
  shows "grows {i} s s'" and "x = None \<Longrightarrow> slot s' n i \<noteq> None"
  using assms set_item_grows [of n i _ s s']
  by (auto simp: store_gen_def grows_refl split: prod.splits sum.splits)

lemma accel_stage_grows:
  assumes "accel_stage pg i (s, w) = (x, s', w')"
  shows "grows {i} s s'" and "x = None \<Longrightarrow> slot s' ''accel'' i \<noteq> None"
  using assms store_gen_grows [of "''accel''" i _ s x s' w']
  by (auto simp: accel_stage_def)

lemma gyro_stage_grows:
  assumes "gyro_stage pg i (s, w) = (x, s', w')"
  shows "grows {i} s s'" and "x = None \<Longrightarrow> slot s' ''gyro'' i \<noteq> None"
  using assms store_gen_grows [of "''gyro''" i _ s x s' w']
  by (auto simp: gyro_stage_def)

lemma gps_stage_grows:
  assumes "gps_stage pg i (s, w) = (x, s', w')"
  shows "grows {i} s s'" and "x = None \<Longrightarrow> gps (imu s) \<Longrightarrow> slot s' ''gps'' i \<noteq> None"
  using assms store_gen_grows [of "''gps''" i _ s x s' w']
  by (auto simp: gps_stage_def grows_refl split: if_splits)

lemma mag_stage_grows:
  assumes "mag_stage pg i (s, w) = (x, s', w')"
  shows "grows {i} s s'" and "x = None \<Longrightarrow> magnetometer (imu s) \<Longrightarrow> slot s' ''mag'' i \<noteq> None"
  using assms store_gen_grows [of "''mag''" i _ s x s' w']
  by (auto simp: mag_stage_def grows_refl split: if_splits)

lemma assign_items_grows:
  assumes "assign_items i (map Self_data_at ns) vs s = (x, s')"
  shows "grows {i} s s'"
    and "x = None \<Longrightarrow> length vs = length ns \<Longrightarrow> n \<in> set ns \<Longrightarrow> slot s' n i \<noteq> None"
  using assms
proof (induction ns arbitrary: vs s)
  case Nil
  {
    case 1 then show ?case by (simp add: grows_refl)
  next
    case 2 then show ?case by simp
  }
next
  case (Cons a ns)
  {
    case 1
    show ?case
    proof (cases vs)
      case Nil
      with 1 show ?thesis by (simp add: grows_refl)
    next
      case (Cons v vs')
      show ?thesis
      proof (cases "set_item a i v s")
        case (Inl e)
        with 1 Cons show ?thesis by (simp add: grows_refl)
      next
        case (Inr s1)
        with 1 Cons have "assign_items i (map Self_data_at ns) vs' s1 = (x, s')" by simp
        from Cons.IH(1) [OF this] set_item_grows(1) [OF Inr] show ?thesis
          using grows_trans by fastforce
      qed
    qed
  next
    case 2
    from 2(2) obtain v vs' where vs: "vs = v # vs'" "length vs' = length ns"
      by (cases vs) auto
    show ?case
    proof (cases "set_item a i v s")
      case (Inl e)
      with 2 vs show ?thesis by simp
    next
      case (Inr s1)
      with 2 vs have r: "assign_items i (map Self_data_at ns) vs' s1 = (x, s')" by simp
      show ?thesis
      proof (cases "n \<in> set ns")
        case True
        from Cons.IH(2) [OF 2(1) vs(2) True r] show ?thesis .
      next
        case False
        with 2(3) have "n = a" by simp
        with set_item_grows(2) [OF Inr] have "slot s1 n i \<noteq> None" by simp
        with Cons.IH(1) [OF r] show ?thesis by (rule grows_slot_kept)
      qed
    qed
  }
qed

lemma expr_items_bound:
  "list_all is_item ts \<Longrightarrow> expr_items (LBracket # ts @ [RBracket]) = Inr ts"
  by (simp add: expr_items_def)

lemma is_item_out: "list_all is_item (map Self_data_at ns)"
  by (induction ns) (simp_all add: is_item_def)

lemma is_item_in: "list_all is_item (map (in_item c) ns)"
  by (induction ns) (simp_all add: is_item_def in_item_def)

lemma algo_stage_grows:
  assumes "sound s" and "algo_stage i (s, w) = (x, s', w')"
  shows "grows {i} s s'" and "x = None \<Longrightarrow> n \<in> declared_outputs s \<Longrightarrow> slot s' n i \<noteq> None"
proof -
  show "grows {i} s s'"
  proof (cases "algo s")
    case None
    with assms(2) show ?thesis by (simp add: algo_stage_def grows_refl)
  next
    case (Some a)
    with assms(1) have out: "expr_items (algo_out_expr s) = Inr (map Self_data_at (output_names a))"
      by (simp add: sound_def expr_items_bound is_item_out)
    from assms(2) Some out show ?thesis
      by (auto simp: algo_stage_def grows_refl assign_items_grows(1)
          split: sum.splits prod.splits option.splits if_splits)
  qed
  show "slot s' n i \<noteq> None" if "x = None" and "n \<in> declared_outputs s"
  proof (cases "algo s")
    case None
    with that show ?thesis by (simp add: declared_outputs_def)
  next
    case (Some a)
    with assms(1) have out: "expr_items (algo_out_expr s) = Inr (map Self_data_at (output_names a))"
      by (simp add: sound_def expr_items_bound is_item_out)
    from that Some have n: "n \<in> set (output_names a)" by (simp add: declared_outputs_def)
    from assms(2) Some out that(1) obtain vs where
      "length vs = length (output_names a)"
      "assign_items i (map Self_data_at (output_names a)) vs s = (None, s')"
      by (auto simp: algo_stage_def split: sum.splits prod.splits option.splits if_splits)
    from assign_items_grows(2) [OF this(2) refl this(1) n] show ?thesis .
  qed
qed

lemma grows_sound:
  assumes "grows I s s'" and "sound s"
  shows "sound s'"
proof -
  have "\<forall>n \<in> set per_trial_names. \<exists>d m. objs s' n = Some d \<and> data d = Dict m"
    using assms grows_dict [OF assms(1)] unfolding sound_def by blast
  with assms(2) show ?thesis
    unfolding sound_def by (simp add: grows_same [OF assms(1)])
qed

lemma grows_declared: "grows I s s' \<Longrightarrow> declared_outputs s' = declared_outputs s"
  by (simp add: declared_outputs_def grows_same)

lemma trial_grows:
  assumes "sound s" and "trial pg i (s, w) = (x, s', w')"
  shows "grows {i} s s'" and "x = None \<Longrightarrow> populated s' i"
proof -
  have "grows {i} s s' \<and> (x = None \<longrightarrow> populated s' i)"
  proof (cases "accel_stage pg i (s, w)")
    case a: (fields xa sa wa)
    note ga = accel_stage_grows [OF a]
    show ?thesis
    proof (cases xa)
      case (Some e)
      with assms(2) a ga show ?thesis by (auto simp: trial_def)
    next
      case None
      show ?thesis
      proof (cases "gyro_stage pg i (sa, wa)")
        case b: (fields xb sb wb)
        note gb = gyro_stage_grows [OF b]
        have g2: "grows {i} s sb" using grows_trans [OF ga(1) gb(1)] by simp
        show ?thesis
        proof (cases xb)
          case (Some e)
          with assms(2) a b None g2 show ?thesis by (auto simp: trial_def)
        next
          case xbN: None
          show ?thesis
          proof (cases "gps_stage pg i (sb, wb)")
            case c: (fields xc sc wc)
            note gc = gps_stage_grows [OF c]
            have g3: "grows {i} s sc" using grows_trans [OF g2 gc(1)] by simp
            show ?thesis
            proof (cases xc)
              case (Some e)
              with assms(2) a b c None xbN g3 show ?thesis by (auto simp: trial_def)
            next
              case xcN: None
              show ?thesis
              proof (cases "mag_stage pg i (sc, wc)")
                case d: (fields xd sd wd)
                note gd = mag_stage_grows [OF d]
                have g4: "grows {i} s sd" using grows_trans [OF g3 gd(1)] by simp
                show ?thesis
                proof (cases xd)
                  case (Some e)
                  with assms(2) a b c d None xbN xcN g4 show ?thesis by (auto simp: trial_def)
                next
                  case xdN: None
                  from assms(2) a b c d None xbN xcN xdN
                  have e: "algo_stage i (sd, wd) = (x, s', w')" by (simp add: trial_def)
                  have sd: "sound sd" using grows_sound [OF g4 assms(1)] .
                  note ge = algo_stage_grows [OF sd e]
                  have g5: "grows {i} s s'" using grows_trans [OF g4 ge(1)] by simp
                  have "populated s' i" if "x = None"
                  proof -
                    have 1: "slot sa ''accel'' i \<noteq> None" using ga(2) None by simp
                    have 2: "slot sb ''gyro'' i \<noteq> None" using gb(2) xbN by simp
                    have 3: "gps (imu s') \<Longrightarrow> slot sc ''gps'' i \<noteq> None"
                      using gc(2) xcN by (simp add: grows_same [OF g5] grows_same [OF g2])
                    have 4: "magnetometer (imu s') \<Longrightarrow> slot sd ''mag'' i \<noteq> None"
                      using gd(2) xdN by (simp add: grows_same [OF g5] grows_same [OF g3])
                    have k1: "grows {i} sa s'"
                      using grows_trans [OF grows_trans [OF grows_trans [OF gb(1) gc(1)] gd(1)] ge(1)]
                      by simp
                    have k2: "grows {i} sb s'"
                      using grows_trans [OF grows_trans [OF gc(1) gd(1)] ge(1)] by simp
                    have k3: "grows {i} sc s'" using grows_trans [OF gd(1) ge(1)] by simp
                    have 5: "\<forall>n \<in> declared_outputs s'. slot s' n i \<noteq> None"
                      using ge(2) that grows_declared [OF ge(1)] by simp
                    from 1 2 3 4 5 show ?thesis
                      unfolding populated_def
                      using grows_slot_kept [OF k1] grows_slot_kept [OF k2] grows_slot_kept [OF k3]
                        grows_slot_kept [OF ge(1)]
                      by blast
                  qed
                  with g5 show ?thesis by simp
                qed
              qed
            qed
          qed
        qed
      qed
    qed
  qed
  then show "grows {i} s s'" and "x = None \<Longrightarrow> populated s' i" by simp_all
qed

lemma grows_populated: "grows I s s' \<Longrightarrow> populated s i \<Longrightarrow> populated s' i"
  unfolding populated_def
  using grows_slot_kept [of I s s']
  by (simp add: grows_same grows_declared)

lemma run_trials_grows_aux:
  "sound s \<Longrightarrow> run_trials pg is (s, w) = (x, s', w') \<Longrightarrow>
     grows (set is) s s' \<and> (x = None \<longrightarrow> (\<forall>i \<in> set is. populated s' i))"
proof (induction "is" arbitrary: s w)
  case Nil
  then show ?case by (simp add: grows_refl)
next
  case (Cons i rest)
  from Cons.prems(2) have h: "and_then (trial pg i (s, w)) (run_trials pg rest) = (x, s', w')"
    by simp
  from h show ?case
  proof (rule and_then_cases)
    fix e
    assume t: "trial pg i (s, w) = (Some e, s', w')" and x: "x = Some e"
    from trial_grows(1) [OF Cons.prems(1) t] have "grows (set (i # rest)) s s'"
      by (rule grows_mono) simp
    with x show ?thesis by simp
  next
    fix st
    assume t: "trial pg i (s, w) = (None, st)" and r: "run_trials pg rest st = (x, s', w')"
    obtain s1 w1 where st: "st = (s1, w1)" by (cases st)
    note tg = trial_grows [OF Cons.prems(1) t [unfolded st]]
    have s1: "sound s1" using grows_sound [OF tg(1) Cons.prems(1)] .
    from Cons.IH [OF s1 r [unfolded st]]
    have ih: "grows (set rest) s1 s'" "x = None \<longrightarrow> (\<forall>i \<in> set rest. populated s' i)"
      by simp_all
    have g: "grows (set (i # rest)) s s'"
      using grows_trans [OF tg(1) ih(1)] by simp
    have "populated s1 i" using tg(2) by simp
    with ih(1) have "populated s' i" by (rule grows_populated)
    with g ih(2) show ?thesis by simp
  qed
qed

lemma run_trials_grows:
  assumes "sound s" and "run_trials pg is (s, w) = (x, s', w')"
  shows "grows (set is) s s'" and "x = None \<Longrightarrow> \<forall>i \<in> set is. populated s' i"
  using run_trials_grows_aux [OF assms] by simp_all

subsection \<open>The reference data\<close>

lemma set_data_frame:
  "n \<notin> set per_trial_names \<Longrightarrow>
     set_data n v s = s\<lparr>objs := objs (set_data n v s)\<rparr> \<and>
     (\<forall>k \<in> set per_trial_names. objs (set_data n v s) k = objs s k)"
  by (auto simp: set_data_def)

lemma frame_trans:
  assumes "s1 = s\<lparr>objs := objs s1\<rparr> \<and> (\<forall>k \<in> set per_trial_names. objs s1 k = objs s k)"
    and "s2 = s1\<lparr>objs := objs s2\<rparr> \<and> (\<forall>k \<in> set per_trial_names. objs s2 k = objs s1 k)"
  shows "s2 = s\<lparr>objs := objs s2\<rparr> \<and> (\<forall>k \<in> set per_trial_names. objs s2 k = objs s k)"
proof -
  from assms have "s2 = (s\<lparr>objs := objs s1\<rparr>)\<lparr>objs := objs s2\<rparr>" by simp
  then have "s2 = s\<lparr>objs := objs s2\<rparr>" by simp
  with assms show ?thesis by simp
qed

lemma frame_refl: "s = s\<lparr>objs := objs s\<rparr> \<and> (\<forall>k \<in> set per_trial_names. objs s k = objs s k)"
  by simp

lemma save_gps_ref_frame:
  assumes "save_gps_ref rtn s = (x, s')"
  shows "s' = s\<lparr>objs := objs s'\<rparr> \<and> (\<forall>k \<in> set per_trial_names. objs s' k = objs s k)"
proof (cases "gps (imu s) \<and> (\<exists>t. column0 (rtn_gps rtn) = Inr t)")
  case True
  then obtain t where t: "column0 (rtn_gps rtn) = Inr t" by blast
  let ?s1 = "set_data ''gps_time'' (Val t) s"
  from assms True t have s': "s' = set_data ''ref_gps'' (Val (columns 1 7 (rtn_gps rtn))) ?s1"
    by (simp add: save_gps_ref_def)
  have 1: "?s1 = s\<lparr>objs := objs ?s1\<rparr> \<and> (\<forall>k \<in> set per_trial_names. objs ?s1 k = objs s k)"
    by (rule set_data_frame) (simp add: per_trial_names_def)
  have 2: "s' = ?s1\<lparr>objs := objs s'\<rparr> \<and> (\<forall>k \<in> set per_trial_names. objs s' k = objs ?s1 k)"
    unfolding s' by (rule set_data_frame) (simp add: per_trial_names_def)
  from frame_trans [OF 1 2] show ?thesis .
next
  case False
  with assms have "s' = s"
    by (auto simp: save_gps_ref_def split: if_splits sum.splits)
  then show ?thesis by simp
qed

lemma save_mag_ref_frame:
  assumes "save_mag_ref rtn s = (x, s')"
  shows "s' = s\<lparr>objs := objs s'\<rparr> \<and> (\<forall>k \<in> set per_trial_names. objs s' k = objs s k)"
proof (cases "magnetometer (imu s)")
  case True
  with assms have s': "s' = set_data ''ref_mag'' (Val (columns 1 4 (rtn_mag rtn))) s"
    by (simp add: save_mag_ref_def)
  show ?thesis unfolding s' by (rule set_data_frame) (simp add: per_trial_names_def)
next
  case False
  with assms have "s' = s" by (simp add: save_mag_ref_def)
  then show ?thesis by simp
qed

lemma save_reference_frame:
  assumes "save_reference rtn s = (x, s')"
  shows "s' = s\<lparr>objs := objs s'\<rparr> \<and> (\<forall>k \<in> set per_trial_names. objs s' k = objs s k)"
proof (cases "column0 (rtn_nav rtn)")
  case (Inl e)
  with assms have "s' = s" by (simp add: save_reference_def)
  then show ?thesis by simp
next
  case (Inr t)
  define s1 where "s1 = set_data ''time'' (Val t) s"
  define s2 where "s2 = set_data ''ref_pos'' (Val (columns 1 4 (rtn_nav rtn))) s1"
  define s3 where "s3 = set_data ''ref_vel'' (Val (columns 4 7 (rtn_nav rtn))) s2"
  define s4 where "s4 = set_data ''ref_att'' (Val (columns 7 10 (rtn_nav rtn))) s3"
  define s5 where "s5 = set_data ''ref_accel'' (Val (columns 1 4 (rtn_imu rtn))) s4"
  define s6 where "s6 = set_data ''ref_gyro'' (Val (columns 4 7 (rtn_imu rtn))) s5"
  have f1: "s1 = s\<lparr>objs := objs s1\<rparr> \<and> (\<forall>k \<in> set per_trial_names. objs s1 k = objs s k)"
    unfolding s1_def by (rule set_data_frame) (simp add: per_trial_names_def)
  have f2: "s2 = s1\<lparr>objs := objs s2\<rparr> \<and> (\<forall>k \<in> set per_trial_names. objs s2 k = objs s1 k)"
    unfolding s2_def by (rule set_data_frame) (simp add: per_trial_names_def)
  have f3: "s3 = s2\<lparr>objs := objs s3\<rparr> \<and> (\<forall>k \<in> set per_trial_names. objs s3 k = objs s2 k)"
    unfolding s3_def by (rule set_data_frame) (simp add: per_trial_names_def)
  have f4: "s4 = s3\<lparr>objs := objs s4\<rparr> \<and> (\<forall>k \<in> set per_trial_names. objs s4 k = objs s3 k)"
    unfolding s4_def by (rule set_data_frame) (simp add: per_trial_names_def)
  have f5: "s5 = s4\<lparr>objs := objs s5\<rparr> \<and> (\<forall>k \<in> set per_trial_names. objs s5 k = objs s4 k)"
    unfolding s5_def by (rule set_data_frame) (simp add: per_trial_names_def)
  have f6: "s6 = s5\<lparr>objs := objs s6\<rparr> \<and> (\<forall>k \<in> set per_trial_names. objs s6 k = objs s5 k)"
    unfolding s6_def by (rule set_data_frame) (simp add: per_trial_names_def)
  note f = frame_trans [OF frame_trans [OF frame_trans [OF frame_trans [OF frame_trans [OF f1 f2] f3] f4] f5] f6]
  from assms Inr have h: "and_then (save_gps_ref rtn s6) (save_mag_ref rtn) = (x, s')"
    by (simp add: save_reference_def s1_def s2_def s3_def s4_def s5_def s6_def)
  from h show ?thesis
  proof (rule and_then_cases)
    fix e assume "save_gps_ref rtn s6 = (Some e, s')"
    from frame_trans [OF f save_gps_ref_frame [OF this]] show ?thesis .
  next
    fix st assume a: "save_gps_ref rtn s6 = (None, st)" and b: "save_mag_ref rtn st = (x, s')"
    from frame_trans [OF frame_trans [OF f save_gps_ref_frame [OF a]] save_mag_ref_frame [OF b]]
    show ?thesis .
  qed
qed

lemma gen_reference_frame:
  assumes "gen_reference pg (s, w) = (x, s', w')"
  shows "s' = s\<lparr>objs := objs s'\<rparr> \<and> (\<forall>k \<in> set per_trial_names. objs s' k = objs s k)"
  using assms save_reference_frame [of _ s x s']
  by (auto simp: gen_reference_def split: prod.splits sum.splits)

lemma frame_same:
  assumes "s' = s\<lparr>objs := objs s'\<rparr>"
  shows "sim_complete s' = sim_complete s" "sim_count s' = sim_count s" "imu s' = imu s"
    "supported_in_constant s' = supported_in_constant s"
    "supported_in_varying s' = supported_in_varying s"
    "supported_out s' = supported_out s" "res s' = res s" "supported_plot s' = supported_plot s"
    "vib_def s' = vib_def s" "algo s' = algo s" "algo_in_expr s' = algo_in_expr s"
    "algo_out_expr s' = algo_out_expr s"
proof -
  note e = assms
  show "sim_complete s' = sim_complete s" by (subst e) simp
  show "sim_count s' = sim_count s" by (subst e) simp
  show "imu s' = imu s" by (subst e) simp
  show "supported_in_constant s' = supported_in_constant s" by (subst e) simp
  show "supported_in_varying s' = supported_in_varying s" by (subst e) simp
  show "supported_out s' = supported_out s" by (subst e) simp
  show "res s' = res s" by (subst e) simp
  show "supported_plot s' = supported_plot s" by (subst e) simp
  show "vib_def s' = vib_def s" by (subst e) simp
  show "algo s' = algo s" by (subst e) simp
  show "algo_in_expr s' = algo_in_expr s" by (subst e) simp
  show "algo_out_expr s' = algo_out_expr s" by (subst e) simp
qed

lemma frame_sound:
  assumes "s' = s\<lparr>objs := objs s'\<rparr> \<and> (\<forall>k \<in> set per_trial_names. objs s' k = objs s k)"
    and "sound s"
  shows "sound s'"
proof -
  from assms(1) have e: "s' = s\<lparr>objs := objs s'\<rparr>" ..
  from assms have "\<forall>n \<in> set per_trial_names. \<exists>d m. objs s' n = Some d \<and> data d = Dict m"
    unfolding sound_def by simp
  with assms(2) show ?thesis
    unfolding sound_def by (simp add: frame_same [OF e])
qed

lemma frame_slot:
  "s' = s\<lparr>objs := objs s'\<rparr> \<and> (\<forall>k \<in> set per_trial_names. objs s' k = objs s k) \<Longrightarrow>
     n \<in> set per_trial_names \<Longrightarrow> slot s' n j = slot s n j"
  by (simp add: slot_def)

lemma set_sim_count_Inr:
  "set_sim_count n s = Inr sc \<longleftrightarrow> (\<exists>c. builtin_int n = Inr c \<and> sc = s\<lparr>sim_count := max 1 c\<rparr>)"
proof (cases "builtin_int n")
  case (Inl e)
  then show ?thesis by (simp add: set_sim_count_def)
next
  case (Inr c)
  have "(if c < 1 then s\<lparr>sim_count := 1\<rparr> else s\<lparr>sim_count := c\<rparr>) = s\<lparr>sim_count := max 1 c\<rparr>"
    by (simp add: max_def)
  with Inr show ?thesis by (auto simp: set_sim_count_def Let_def)
qed

lemma set_sim_count_Inl: "set_sim_count n s = Inl e \<longleftrightarrow> builtin_int n = Inl e"
  by (auto simp: set_sim_count_def Let_def split: sum.splits)

lemma set_sim_count_Finite:
  "set_sim_count (Finite v) s = Inr (s\<lparr>sim_count := max 1 (py_int v)\<rparr>)"
  by (simp add: set_sim_count_Inr builtin_int_def)

lemma set_sim_count_eq:
  assumes "set_sim_count n s = Inr sc"
  shows "sc = s\<lparr>sim_count := sim_count sc\<rparr>" and "1 \<le> sim_count sc"
    and "builtin_int n = Inr c \<Longrightarrow> sim_count sc = max 1 c"
  using assms by (auto simp: set_sim_count_Inr)

lemma sound_sim_count: "sound s \<Longrightarrow> sound (s\<lparr>sim_count := c\<rparr>)"
  by (simp add: sound_def)

lemma sound_complete: "sound s \<Longrightarrow> sound (s\<lparr>sim_complete := True\<rparr>)"
  by (simp add: sound_def)

lemma set_sim_count_sound: "sound s \<Longrightarrow> set_sim_count n s = Inr sc \<Longrightarrow> sound sc"
  by (auto simp: set_sim_count_Inr sound_sim_count)

lemma slot_sim_count [simp]: "slot (s\<lparr>sim_count := c\<rparr>) = slot s"
  by (rule ext)+ (simp add: slot_def)

lemma slot_sim_complete [simp]: "slot (s\<lparr>sim_complete := c\<rparr>) = slot s"
  by (rule ext)+ (simp add: slot_def)

lemma Sim_run_cases:
  assumes "Sim_run pg n (s, w) = (x, s', w')"
  obtains (conversion) e where "set_sim_count n s = Inl e" and "x = Some e" and "s' = s"
      and "w' = w"
    | (reference) e sc where "gen_reference pg (sc, w) = (Some e, s', w')"
      and "x = Some e" and "set_sim_count n s = Inr sc"
    | (trial) e s1 w1 sc where "gen_reference pg (sc, w) = (None, s1, w1)"
      and "run_trials pg (range0 (sim_count s1)) (s1, w1) = (Some e, s', w')" and "x = Some e"
      and "set_sim_count n s = Inr sc"
    | (complete) s1 w1 s2 sc where "gen_reference pg (sc, w) = (None, s1, w1)"
      and "run_trials pg (range0 (sim_count s1)) (s1, w1) = (None, s2, w')"
      and "s' = s2\<lparr>sim_complete := True\<rparr>" and "x = None"
      and "set_sim_count n s = Inr sc"
proof (cases "set_sim_count n s")
  case (Inl e)
  with assms show ?thesis by (intro conversion [of e]) (simp_all add: Sim_run_def)
next
  case (Inr sc)
  with assms have h: "and_then
         (and_then (gen_reference pg (sc, w))
                   (\<lambda>(s1, w1). run_trials pg (range0 (sim_count s1)) (s1, w1)))
         (\<lambda>(s2, w2). (None, s2\<lparr>sim_complete := True\<rparr>, w2)) = (x, s', w')"
    by (simp add: Sim_run_def)
  from h show ?thesis
  proof (rule and_then_cases)
    fix e
    assume a: "and_then (gen_reference pg (sc, w))
                   (\<lambda>(s1, w1). run_trials pg (range0 (sim_count s1)) (s1, w1)) = (Some e, s', w')"
      and x: "x = Some e"
    from a show ?thesis
    proof (rule and_then_cases)
      fix e' assume "gen_reference pg (sc, w) = (Some e', s', w')" "Some e = Some e'"
      with x Inr show ?thesis by (intro reference [of sc e]) auto
    next
      fix st assume g: "gen_reference pg (sc, w) = (None, st)"
        and r: "(case st of (s1, w1) \<Rightarrow> run_trials pg (range0 (sim_count s1)) (s1, w1)) = (Some e, s', w')"
      obtain s1 w1 where st: "st = (s1, w1)" by (cases st)
      from g r x st Inr show ?thesis by (intro trial [of sc s1 w1 e]) auto
    qed
  next
    fix st
    assume a: "and_then (gen_reference pg (sc, w))
                   (\<lambda>(s1, w1). run_trials pg (range0 (sim_count s1)) (s1, w1)) = (None, st)"
      and b: "(case st of (s2, w2) \<Rightarrow> (None, s2\<lparr>sim_complete := True\<rparr>, w2)) = (x, s', w')"
    obtain s2 w2 where st: "st = (s2, w2)" by (cases st)
    from a show ?thesis
    proof (rule and_then_cases)
      fix e' assume "None = Some e'"
      then show ?thesis by simp
    next
      fix st1 assume g: "gen_reference pg (sc, w) = (None, st1)"
        and r: "(case st1 of (s1, w1) \<Rightarrow> run_trials pg (range0 (sim_count s1)) (s1, w1)) = (None, st)"
      obtain s1 w1 where st1: "st1 = (s1, w1)" by (cases st1)
      from g r b st st1 Inr show ?thesis by (intro complete [of sc s1 w1 s2]) auto
    qed
  qed
qed

subsection \<open>Every reachable object is sound\<close>

lemma parse_in_TrueD:
  "parse_in c v ins e = (True, e') \<Longrightarrow>
     (\<forall>n \<in> set ins. c (Name n) \<noteq> None \<or> v (Name n) \<noteq> None) \<and> e' = e @ map (in_item c) ins"
proof (induction ins arbitrary: e)
  case Nil
  then show ?case by simp
next
  case (Cons i ins)
  show ?case
  proof (cases "c (Name i) \<noteq> None")
    case True
    with Cons.prems have "parse_in c v ins (e @ [Self_data i]) = (True, e')" by simp
    from Cons.IH [OF this] True show ?thesis by (simp add: in_item_def)
  next
    case False
    with Cons.prems have v: "v (Name i) \<noteq> None"
      by (auto split: if_splits)
    with False Cons.prems have "parse_in c v ins (e @ [Self_data_at i]) = (True, e')" by simp
    from Cons.IH [OF this] False v show ?thesis by (simp add: in_item_def)
  qed
qed

lemma parse_out_TrueD:
  "parse_out out outs e = (True, e') \<Longrightarrow>
     (\<forall>n \<in> set outs. out (Name n) \<noteq> None) \<and> e' = e @ map Self_data_at outs"
proof (induction outs arbitrary: e)
  case Nil
  then show ?case by simp
next
  case (Cons i outs)
  from Cons.prems have o: "out (Name i) \<noteq> None" by (auto split: if_splits)
  with Cons.prems have "parse_out out outs (e @ [Self_data_at i]) = (True, e')" by simp
  from Cons.IH [OF this] o show ?case by simp
qed

lemma check_algorithm_bound:
  assumes "check_algorithm s a = Inr s'" and "algo s = Some a"
  shows "(\<forall>n \<in> set (input_names a). supported_in_constant s (Name n) \<noteq> None
            \<or> supported_in_varying s (Name n) \<noteq> None)"
    and "(\<forall>n \<in> set (output_names a). supported_out s (Name n) \<noteq> None)"
    and "s' = s\<lparr>algo_in_expr := algo_in_expr s @ map (in_item (supported_in_constant s)) (input_names a)
                               @ [RBracket],
              algo_out_expr := algo_out_expr s @ map Self_data_at (output_names a) @ [RBracket]\<rparr>"
proof -
  obtain b1 e1 where p1: "parse_in (supported_in_constant s) (supported_in_varying s)
      (input_names a) (algo_in_expr s) = (b1, e1)" by (cases "parse_in (supported_in_constant s)
      (supported_in_varying s) (input_names a) (algo_in_expr s)")
  obtain b2 e2 where p2: "parse_out (supported_out s) (output_names a) (algo_out_expr s) = (b2, e2)"
    by (cases "parse_out (supported_out s) (output_names a) (algo_out_expr s)")
  from assms p1 p2 have b: "b1" "b2"
    by (auto simp: check_algorithm_def parse_algo_in_out_def split: if_splits bool.splits)
  note d1 = parse_in_TrueD [OF p1 [unfolded b(1) [THEN eqTrueI]]]
  note d2 = parse_out_TrueD [OF p2 [unfolded b(2) [THEN eqTrueI]]]
  from d1 show "(\<forall>n \<in> set (input_names a). supported_in_constant s (Name n) \<noteq> None
            \<or> supported_in_varying s (Name n) \<noteq> None)" by simp
  from d2 show "(\<forall>n \<in> set (output_names a). supported_out s (Name n) \<noteq> None)" by simp
  from assms p1 p2 b d1 d2
  show "s' = s\<lparr>algo_in_expr := algo_in_expr s @ map (in_item (supported_in_constant s)) (input_names a)
                               @ [RBracket],
              algo_out_expr := algo_out_expr s @ map Self_data_at (output_names a) @ [RBracket]\<rparr>"
    by (auto simp: check_algorithm_def parse_algo_in_out_def split: if_splits)
qed

lemma new_containers_dicts:
  "n \<in> set per_trial_names \<Longrightarrow> \<exists>d m. new_containers f n = Some d \<and> data d = Dict m"
  by (auto simp: per_trial_names_def new_containers_def Sim_data_init_on)

lemma init_attributes_sound:
  assumes "init_attributes fs im wp mode env None = Inr s"
  shows "sound s"
  using init_attributes_InrD [OF assms] new_containers_dicts
  unfolding sound_def by auto

lemma Sim_init_sound:
  assumes "Sim_init fs im wp mode env alg = Inr s"
  shows "sound s"
proof (cases alg)
  case None
  with assms have "init_attributes fs im wp mode env None = Inr s"
    by (auto simp: Sim_init_def split: sum.splits)
  then show ?thesis by (rule init_attributes_sound)
next
  case (Some a)
  with assms obtain s0 where s0: "init_attributes fs im wp mode env (Some a) = Inr s0"
    and c: "check_algorithm s0 a = Inr s"
    by (auto simp: Sim_init_def split: sum.splits)
  note f = init_attributes_InrD [OF s0]
  from f have a: "algo s0 = Some a" by blast
  note b = check_algorithm_bound [OF c a]
  from f have ex: "algo_in_expr s0 = [LBracket]" "algo_out_expr s0 = [LBracket]" by blast+
  have 1: "\<forall>n \<in> set per_trial_names. \<exists>d m. objs s0 n = Some d \<and> data d = Dict m"
    using f new_containers_dicts by auto
  from f obtain f0 where reg:
    "supported_in_constant s0 = init_supported_in_constant (new_containers f0) (imu s0)"
    "supported_in_varying s0 = init_supported_in_varying (new_containers f0) (imu s0)"
    "supported_out s0 = init_supported_out (new_containers f0)"
    by auto
  from f have v: "vib_def s0 = None" "res s0 = Map.empty" by blast+
  have e: "supported_in_constant s = supported_in_constant s0"
    "supported_in_varying s = supported_in_varying s0" "supported_out s = supported_out s0"
    "imu s = imu s0" "objs s = objs s0" "algo s = algo s0" "vib_def s = vib_def s0"
    "res s = res s0" "sim_complete s = sim_complete s0"
    "algo_in_expr s = LBracket # map (in_item (supported_in_constant s0)) (input_names a) @ [RBracket]"
    "algo_out_expr s = LBracket # map Self_data_at (output_names a) @ [RBracket]"
    by (simp_all add: b(3) ex)
  show ?thesis
    unfolding sound_def e
    using 1 reg a b(1,2) v by auto
qed

lemma gen_reference_sound:
  assumes "sound s" and "gen_reference pg (s, w) = (x, s', w')"
  shows "sound s'"
  using gen_reference_frame [OF assms(2)] assms(1) by (rule frame_sound)

lemma Sim_run_sound:
  assumes "sound s" and "Sim_run pg n (s, w) = (x, s', w')"
  shows "sound s'"
proof -
  note s0 = set_sim_count_sound [OF assms(1)]
  from assms(2) show ?thesis
  proof (cases rule: Sim_run_cases)
    case (conversion e)
    with assms(1) show ?thesis by simp
  next
    case (reference e sc)
    from gen_reference_sound [OF s0 [OF reference(3)] reference(1)] show ?thesis .
  next
    case (trial e s1 w1 sc)
    from gen_reference_sound [OF s0 [OF trial(4)] trial(1)] have "sound s1" .
    from grows_sound [OF run_trials_grows(1) [OF this trial(2)] this] show ?thesis .
  next
    case (complete s1 w1 s2 sc)
    from gen_reference_sound [OF s0 [OF complete(5)] complete(1)] have "sound s1" .
    from grows_sound [OF run_trials_grows(1) [OF this complete(2)] this] have "sound s2" .
    then show ?thesis unfolding complete(3) by (rule sound_complete)
  qed
qed

lemma add_outputs_ok:
  "\<forall>n \<in> set ns. out (Name n) \<noteq> None \<Longrightarrow>
     add_outputs out ns r = (None, \<lambda>k. if k \<in> Name ` set ns then out k else r k)"
proof (induction ns arbitrary: r)
  case Nil
  then show ?case by simp
next
  case (Cons i ns)
  from Cons.prems obtain d where d: "out (Name i) = Some d" by auto
  from Cons.prems have "\<forall>n \<in> set ns. out (Name n) \<noteq> None" by simp
  note ih = Cons.IH [OF this, of "r(Name i \<mapsto> d)"]
  have "add_outputs out (i # ns) r = add_outputs out ns (r(Name i \<mapsto> d))"
    by (simp add: dict_get_def d)
  also note ih
  also have "(None :: error option, \<lambda>k. if k \<in> Name ` set ns then out k else (r(Name i \<mapsto> d)) k)
      = (None, \<lambda>k. if k \<in> Name ` set (i # ns) then out k else r k)"
    using d by (auto simp: fun_eq_iff)
  finally show ?case .
qed

section \<open>Results\<close>

lemma registry_disjoint:
  "init_supported_in_constant (new_containers f) im k \<noteq> None \<Longrightarrow>
     init_supported_in_varying (new_containers f) im k = None"
  "init_supported_in_constant (new_containers f) im k \<noteq> None \<Longrightarrow>
     init_supported_out (new_containers f) k = None"
  "init_supported_in_varying (new_containers f) im k \<noteq> None \<Longrightarrow>
     init_supported_out (new_containers f) k = None"
  by (cases k; simp add: supported_in_constant_eq supported_in_varying_eq supported_out_eq
      split: if_splits)+

lemma sound_registry:
  assumes "sound s"
  shows "supported_in_constant s (Name ''fs'') \<noteq> None"
    and "supported_in_constant s (Name ''ref_frame'') \<noteq> None"
    and "supported_in_varying s (Name ''fs'') = None"
    and "supported_in_varying s (Name ''ref_frame'') = None"
    and "supported_out s (Name ''fs'') = None"
    and "supported_out s (Name ''ref_frame'') = None"
    and "dom (supported_in_constant s) \<inter> dom (supported_in_varying s) = {}"
    and "dom (supported_in_constant s) \<inter> dom (supported_out s) = {}"
    and "dom (supported_in_varying s) \<inter> dom (supported_out s) = {}"
proof -
  from assms obtain f0 where
    c: "supported_in_constant s = init_supported_in_constant (new_containers f0) (imu s)" and
    v: "supported_in_varying s = init_supported_in_varying (new_containers f0) (imu s)" and
    out: "supported_out s = init_supported_out (new_containers f0)"
    unfolding sound_def by blast
  show "supported_in_constant s (Name ''fs'') \<noteq> None" by (simp add: c supported_in_constant_eq)
  show "supported_in_constant s (Name ''ref_frame'') \<noteq> None" by (simp add: c supported_in_constant_eq)
  show "supported_in_varying s (Name ''fs'') = None" by (simp add: v supported_in_varying_eq)
  show "supported_in_varying s (Name ''ref_frame'') = None" by (simp add: v supported_in_varying_eq)
  show "supported_out s (Name ''fs'') = None" by (simp add: out supported_out_eq)
  show "supported_out s (Name ''ref_frame'') = None" by (simp add: out supported_out_eq)
  show "dom (supported_in_constant s) \<inter> dom (supported_in_varying s) = {}"
    unfolding c v using registry_disjoint(1) [of f0 "imu s"] by (auto simp: disjoint_iff domIff)
  show "dom (supported_in_constant s) \<inter> dom (supported_out s) = {}"
    unfolding c out using registry_disjoint(2) [of f0 "imu s"] by (auto simp: disjoint_iff domIff)
  show "dom (supported_in_varying s) \<inter> dom (supported_out s) = {}"
    unfolding v out using registry_disjoint(3) [of f0 "imu s"] by (auto simp: disjoint_iff domIff)
qed

lemma Sim_results_incomplete: "\<not> sim_complete s \<Longrightarrow> Sim_results s = (Inr (res s), s)"
  by (simp add: Sim_results_def)

lemma restrict_as_if:
  "r ++ (out |` D) = (\<lambda>k. if k \<in> D \<and> out k \<noteq> None then out k else r k)"
  by (auto simp: fun_eq_iff map_add_def restrict_map_def split: option.splits)

lemma Sim_results_complete:
  assumes "sound s" and "sim_complete s"
  defines "r \<equiv> supported_in_constant s ++ supported_in_varying s
                 ++ (supported_out s |` (Name ` declared_outputs s))"
  shows "Sim_results s
       = (Inr r, s\<lparr>res := r, supported_plot := r(Name ''fs'' := None, Name ''ref_frame'' := None)\<rparr>)"
proof -
  let ?r0 = "supported_in_constant s ++ supported_in_varying s"
  have a: "(case algo s of
              None \<Rightarrow> (None, ?r0)
            | Some a \<Rightarrow> add_outputs (supported_out s) (output_names a) ?r0) = (None, r)"
  proof (cases "algo s")
    case None
    then show ?thesis by (simp add: r_def declared_outputs_def)
  next
    case (Some a)
    with assms(1) have ok: "\<forall>n \<in> set (output_names a). supported_out s (Name n) \<noteq> None"
      by (simp add: sound_def)
    have "(\<lambda>k. if k \<in> Name ` set (output_names a) then supported_out s k else ?r0 k) = r"
      unfolding r_def restrict_as_if using ok Some
      by (auto simp: fun_eq_iff declared_outputs_def)
    with add_outputs_ok [OF ok, of ?r0] Some show ?thesis by simp
  qed
  note reg = sound_registry [OF assms(1)]
  have fs: "r (Name ''fs'') \<noteq> None" and rf: "r (Name ''ref_frame'') \<noteq> None"
    unfolding r_def restrict_as_if using reg(1-6) by (auto simp: map_add_def split: option.splits)
  from fs obtain d1 where d1: "r (Name ''fs'') = Some d1" by auto
  from rf obtain d2 where d2: "r (Name ''ref_frame'') = Some d2" by auto
  show ?thesis
    using assms(2) a d1 d2 by (simp add: Sim_results_def dict_pop_def)
qed

lemma Sim_results_sound:
  assumes "sound s" and "Sim_results s = (x, s')"
  shows "sound s'"
proof (cases "sim_complete s")
  case True
  from Sim_results_complete [OF assms(1) True] assms(2)
  have "\<exists>r p. s' = s\<lparr>res := r, supported_plot := p\<rparr>" by auto
  then obtain r p where "s' = s\<lparr>res := r, supported_plot := p\<rparr>" by blast
  with assms(1) True show ?thesis by (simp add: sound_def)
next
  case False
  with assms show ?thesis by (simp add: Sim_results_incomplete)
qed

lemma reachable_sound: "reachable pg s \<Longrightarrow> sound s"
proof (induction rule: reachable.induct)
  case (constructed fs im waypoints mode env algorithm s)
  then show ?case by (rule Sim_init_sound)
next
  case (after_run s num_times w r s' w')
  from after_run.IH after_run.hyps(2) show ?case by (rule Sim_run_sound)
next
  case (after_results s r s')
  from after_results.IH after_results.hyps(2) show ?case by (rule Sim_results_sound)
qed

text \<open>
  Claim C3. For every object a caller can hold: after a completed run (the flag
  \<open>sim_complete\<close> is set) \<open>results()\<close> returns, without raising, the dict that is
  \<open>supported_in_constant\<close> updated with \<open>supported_in_varying\<close> and with
  \<open>supported_out[i]\<close> for exactly the output names \<open>i\<close> the bound algorithm declares; the
  three parts have disjoint keys, so its items are the union of theirs. While no run has
  completed (in particular before any run) it returns, without raising, the empty dict
  \<open>self.res\<close> of line 156, which has no entry at all, hence no algorithm output.
\<close>

theorem results_projection:
  assumes "reachable pg s"
  shows "\<exists>r. fst (Sim_results s) = Inr r \<and>
           (sim_complete s \<longrightarrow>
              r = supported_in_constant s ++ supported_in_varying s
                    ++ (supported_out s |` (Name ` declared_outputs s)) \<and>
              Map.graph r = Map.graph (supported_in_constant s) \<union> Map.graph (supported_in_varying s)
                    \<union> {(k, d). supported_out s k = Some d \<and> k \<in> Name ` declared_outputs s}) \<and>
           (\<not> sim_complete s \<longrightarrow> r = Map.empty)"
proof (cases "sim_complete s")
  case True
  note snd = reachable_sound [OF assms]
  note reg = sound_registry [OF snd]
  let ?o = "supported_out s |` (Name ` declared_outputs s)"
  have d1: "dom (supported_in_constant s) \<inter> dom (supported_in_varying s) = {}" by (rule reg(7))
  have d2: "dom (supported_in_constant s ++ supported_in_varying s) \<inter> dom ?o = {}"
    using reg(8,9) by (auto simp: restrict_map_def split: if_splits)
  have g: "Map.graph ?o = {(k, d). supported_out s k = Some d \<and> k \<in> Name ` declared_outputs s}"
    by (auto simp: Map.graph_def restrict_map_def split: if_splits)
  from Sim_results_complete [OF snd True] True show ?thesis
    by (simp add: graph_map_add [OF d2] graph_map_add [OF d1] g)
next
  case False
  with reachable_sound [OF assms] have "res s = Map.empty" by (simp add: sound_def)
  with False show ?thesis by (simp add: Sim_results_incomplete)
qed

lemma py_int_lt_1: "num_value n < 1 \<Longrightarrow> py_int n < 1"
  by (cases n) (auto simp: num_value_def py_int_def ceiling_less_iff floor_less_iff)

lemma set_sim_count_lt_1:
  "py_int v < 1 \<Longrightarrow> set_sim_count (Finite v) s = set_sim_count (Finite (PyInt 1)) s"
  by (simp add: set_sim_count_Finite py_int_def)

lemma Sim_run_raises: "builtin_int n = Inl e \<Longrightarrow> Sim_run pg n (s, w) = (Some e, s, w)"
  by (simp add: Sim_run_def set_sim_count_def)

lemma Sim_run_sim_count:
  assumes "sound s" and "Sim_run pg n (s, w) = (x, s', w')" and "builtin_int n = Inr c"
  shows "sim_count s' = max 1 c"
proof -
  note s0 = set_sim_count_sound [OF assms(1)]
  have c0: "sim_count sc = max 1 c" if "set_sim_count n s = Inr sc" for sc
    using set_sim_count_eq(3) [OF that assms(3)] .
  from assms(2) show ?thesis
  proof (cases rule: Sim_run_cases)
    case (conversion e)
    with assms(3) show ?thesis by (simp add: set_sim_count_Inl)
  next
    case (reference e sc)
    from gen_reference_frame [OF reference(1)] have "s' = sc\<lparr>objs := objs s'\<rparr>" ..
    from frame_same(2) [OF this] c0 [OF reference(3)] show ?thesis by simp
  next
    case (trial e s1 w1 sc)
    from gen_reference_frame [OF trial(1)] have "s1 = sc\<lparr>objs := objs s1\<rparr>" ..
    from frame_same(2) [OF this] c0 [OF trial(4)] have 1: "sim_count s1 = max 1 c" by simp
    from gen_reference_sound [OF s0 [OF trial(4)] trial(1)] have "sound s1" .
    from grows_same(2) [OF run_trials_grows(1) [OF this trial(2)]] 1 show ?thesis by simp
  next
    case (complete s1 w1 s2 sc)
    from gen_reference_frame [OF complete(1)] have "s1 = sc\<lparr>objs := objs s1\<rparr>" ..
    from frame_same(2) [OF this] c0 [OF complete(5)] have 1: "sim_count s1 = max 1 c" by simp
    from gen_reference_sound [OF s0 [OF complete(5)] complete(1)] have "sound s1" .
    from grows_same(2) [OF run_trials_grows(1) [OF this complete(2)]] 1 complete(3)
    show ?thesis by simp
  qed
qed

text \<open>
  Claim C4, as amended. For an integer or a finite float \<open>v < 1\<close>, \<open>run(v)\<close> is the same
  computation as \<open>run(1)\<close> and leaves \<open>sim_count = 1\<close>; for every integer or finite float
  the conversion of lines 224 to 226 does not raise and the count after the call is
  \<open>max(1, int(v))\<close>, at least 1, whether the call returns or raises later: no such
  argument is rejected for being small. For any other float (\<open>inf\<close>, \<open>-inf\<close>, \<open>nan\<close>) the
  conversion \<open>int(n)\<close> raises, and the call leaves the object as it was.
\<close>

theorem run_count_clamped:
  assumes "reachable pg s"
  shows "(num_value v < 1 \<longrightarrow> Sim_run pg (Finite v) (s, w) = Sim_run pg (Finite (PyInt 1)) (s, w)
            \<and> sim_count (fst (snd (Sim_run pg (Finite v) (s, w)))) = 1)
       \<and> set_sim_count (Finite v) s = Inr (s\<lparr>sim_count := max 1 (py_int v)\<rparr>)
       \<and> sim_count (fst (snd (Sim_run pg (Finite v) (s, w)))) = max 1 (py_int v)
       \<and> 1 \<le> sim_count (fst (snd (Sim_run pg (Finite v) (s, w))))
       \<and> (\<forall>e. builtin_int n = Inl e \<longrightarrow> Sim_run pg n (s, w) = (Some e, s, w))
       \<and> ((\<exists>e. builtin_int n = Inl e) \<longleftrightarrow> n = PosInf \<or> n = NegInf \<or> n = NaN)"
proof -
  obtain x s' w' where r: "Sim_run pg (Finite v) (s, w) = (x, s', w')"
    by (cases "Sim_run pg (Finite v) (s, w)")
  have "builtin_int (Finite v) = Inr (py_int v)" by (simp add: builtin_int_def)
  from Sim_run_sim_count [OF reachable_sound [OF assms] r this]
  have c: "sim_count s' = max 1 (py_int v)" .
  have c': "sim_count (fst (snd (Sim_run pg (Finite v) (s, w)))) = max 1 (py_int v)"
    by (simp add: r c)
  have "Sim_run pg (Finite v) (s, w) = Sim_run pg (Finite (PyInt 1)) (s, w)" if "num_value v < 1"
    using set_sim_count_lt_1 [OF py_int_lt_1 [OF that], of s] by (simp add: Sim_run_def)
  moreover have "max 1 (py_int v) = 1" if "num_value v < 1"
    using py_int_lt_1 [OF that] by simp
  moreover have "(\<exists>e. builtin_int n = Inl e) \<longleftrightarrow> n = PosInf \<or> n = NegInf \<or> n = NaN"
    by (cases n) (simp_all add: builtin_int_def)
  ultimately show ?thesis unfolding c' by (simp add: set_sim_count_Finite Sim_run_raises)
qed

subsection \<open>Splitting the loop at a trial\<close>

lemma and_then_cong:
  "(\<And>st. r = (None, st) \<Longrightarrow> f st = g st) \<Longrightarrow> and_then r f = and_then r g"
  by (cases r) (auto simp: and_then_def split: option.splits)

lemma run_trials_append:
  "run_trials pg (xs @ ys) st = and_then (run_trials pg xs st) (run_trials pg ys)"
proof (induction xs arbitrary: st)
  case Nil
  then show ?case by simp
next
  case (Cons i xs)
  obtain x st1 where t: "trial pg i st = (x, st1)" by (cases "trial pg i st")
  with Cons.IH [of st1] show ?case by (cases x) simp_all
qed

lemma run_trials_failure:
  "run_trials pg is st = (Some e, st') \<Longrightarrow>
     \<exists>pre k post stk. is = pre @ k # post \<and> run_trials pg pre st = (None, stk)
        \<and> trial pg k stk = (Some e, st')"
proof (induction "is" arbitrary: st)
  case Nil
  then show ?case by simp
next
  case (Cons i rest)
  from Cons.prems have h: "and_then (trial pg i st) (run_trials pg rest) = (Some e, st')" by simp
  from h show ?case
  proof (rule and_then_cases)
    fix e' assume "trial pg i st = (Some e', st')" "Some e = Some e'"
    then have "i # rest = [] @ i # rest \<and> run_trials pg [] st = (None, st)
        \<and> trial pg i st = (Some e, st')" by simp
    then show ?thesis by blast
  next
    fix st1 assume t: "trial pg i st = (None, st1)" and r: "run_trials pg rest st1 = (Some e, st')"
    from Cons.IH [OF r] obtain pre k post stk where
      d: "rest = pre @ k # post" "run_trials pg pre st1 = (None, stk)" "trial pg k stk = (Some e, st')"
      by blast
    from d t have "i # rest = (i # pre) @ k # post \<and> run_trials pg (i # pre) st = (None, stk)
        \<and> trial pg k stk = (Some e, st')" by simp
    then show ?thesis by blast
  qed
qed

lemma range0_split:
  assumes "range0 c = pre @ k # post"
  shows "pre = range0 k" and "0 \<le> k" and "k < c" and "k \<notin> set post"
proof -
  let ?n = "nat c"
  let ?p = "length pre"
  from assms have e: "map int [0 ..< ?n] = pre @ k # post" by (simp add: range0_def)
  from arg_cong [OF e, of length] have "?n = ?p + Suc (length post)" by simp
  then have len: "?p < ?n" by simp
  from e have "pre = take ?p (map int [0 ..< ?n])" by simp
  also have "\<dots> = map int [0 ..< ?p]" using len by (simp add: take_map take_upt)
  finally have pre: "pre = map int [0 ..< ?p]" .
  from e have "k = (map int [0 ..< ?n]) ! ?p" by (simp add: nth_append)
  with len have k: "k = int ?p" by simp
  from pre k show "pre = range0 k" by (simp add: range0_def)
  from k show "0 \<le> k" by simp
  from k len show "k < c" by linarith
  have "distinct (pre @ k # post)" unfolding e [symmetric] by (simp add: distinct_map)
  then show "k \<notin> set post" by simp
qed

lemma range0_mem: "i \<in> set (range0 c) \<longleftrightarrow> 0 \<le> i \<and> i < c"
proof
  assume "i \<in> set (range0 c)"
  then obtain j where "j < nat c" "i = int j" by (auto simp: range0_def)
  then show "0 \<le> i \<and> i < c" by linarith
next
  assume a: "0 \<le> i \<and> i < c"
  then have "nat i < nat c" "i = int (nat i)" by simp_all
  then show "i \<in> set (range0 c)" unfolding range0_def by (metis atLeast0LessThan image_eqI lessThan_iff list.set_map set_upt)
qed

section \<open>Running: the claims about \<open>run\<close>\<close>

subsection \<open>The vibration model\<close>

lemma no_vib_stages:
  "gyro_stage (pg\<lparr>acc_gen := g\<rparr>) = gyro_stage pg"
  "gps_stage (pg\<lparr>acc_gen := g\<rparr>) = gps_stage pg"
  "mag_stage (pg\<lparr>acc_gen := g\<rparr>) = mag_stage pg"
  "gen_reference (pg\<lparr>acc_gen := g\<rparr>) = gen_reference pg"
  by (simp_all add: fun_eq_iff gyro_stage_def gps_stage_def mag_stage_def gen_reference_def)

lemma no_vib_accel_stage:
  "vib_def s = None \<Longrightarrow>
     accel_stage (pg\<lparr>acc_gen := \<lambda>f r e v. acc_gen pg f r e None\<rparr>) i (s, w) = accel_stage pg i (s, w)"
  by (simp add: accel_stage_def)

lemma no_vib_trial:
  "vib_def s = None \<Longrightarrow>
     trial (pg\<lparr>acc_gen := \<lambda>f r e v. acc_gen pg f r e None\<rparr>) i (s, w) = trial pg i (s, w)"
  by (simp add: trial_def no_vib_stages no_vib_accel_stage)

lemma no_vib_run_trials:
  "sound s \<Longrightarrow>
     run_trials (pg\<lparr>acc_gen := \<lambda>f r e v. acc_gen pg f r e None\<rparr>) is (s, w) = run_trials pg is (s, w)"
proof (induction "is" arbitrary: s w)
  case Nil
  then show ?case by simp
next
  case (Cons i rest)
  let ?pg = "pg\<lparr>acc_gen := \<lambda>f r e v. acc_gen pg f r e None\<rparr>"
  from Cons.prems have v: "vib_def s = None" by (simp add: sound_def)
  have "run_trials ?pg (i # rest) (s, w) = and_then (trial pg i (s, w)) (run_trials ?pg rest)"
    by (simp add: no_vib_trial [OF v])
  also have "\<dots> = and_then (trial pg i (s, w)) (run_trials pg rest)"
  proof (rule and_then_cong)
    fix st assume t: "trial pg i (s, w) = (None, st)"
    obtain s1 w1 where st: "st = (s1, w1)" by (cases st)
    from grows_sound [OF trial_grows(1) [OF Cons.prems t [unfolded st]] Cons.prems]
    have "sound s1" .
    from Cons.IH [OF this] st show "run_trials ?pg rest st = run_trials pg rest st" by simp
  qed
  finally show ?case by simp
qed

lemma no_vib_Sim_run:
  assumes "sound s"
  shows "Sim_run (pg\<lparr>acc_gen := \<lambda>f r e v. acc_gen pg f r e None\<rparr>) n (s, w) = Sim_run pg n (s, w)"
proof (cases "set_sim_count n s")
  case (Inl e)
  then show ?thesis by (simp add: Sim_run_def)
next
  case (Inr sc)
  let ?pg = "pg\<lparr>acc_gen := \<lambda>f r e v. acc_gen pg f r e None\<rparr>"
  have s0: "sound sc"
    using assms Inr by (rule set_sim_count_sound)
  have "and_then (gen_reference pg (sc, w))
           (\<lambda>(s1, w1). run_trials ?pg (range0 (sim_count s1)) (s1, w1))
      = and_then (gen_reference pg (sc, w))
           (\<lambda>(s1, w1). run_trials pg (range0 (sim_count s1)) (s1, w1))"
  proof (rule and_then_cong)
    fix st assume g: "gen_reference pg (sc, w) = (None, st)"
    obtain s1 w1 where st: "st = (s1, w1)" by (cases st)
    from gen_reference_sound [OF s0 g [unfolded st]] have "sound s1" .
    from no_vib_run_trials [OF this] st
    show "(case st of (s1, w1) \<Rightarrow> run_trials ?pg (range0 (sim_count s1)) (s1, w1))
        = (case st of (s1, w1) \<Rightarrow> run_trials pg (range0 (sim_count s1)) (s1, w1))"
      by simp
  qed
  then show ?thesis by (simp add: Sim_run_def no_vib_stages Inr)
qed

text \<open>
  Claim C9. For every argument \<open>env\<close> that the constructor accepts (a string or an array),
  the constructed object has \<open>vib_def = None\<close>, and so has every object a caller can hold;
  a run on such an object gives the accelerometer model no vibration model: replacing
  the fourth argument of every \<open>acc_gen\<close> call by \<open>None\<close> changes nothing of the run.
\<close>

theorem no_vibration_model:
  assumes "Sim_init fs im wp mode env alg = Inr s0" and "reachable pg s"
  shows "vib_def s0 = None \<and> vib_def s = None \<and>
         Sim_run (pg\<lparr>acc_gen := \<lambda>f r e v. acc_gen pg f r e None\<rparr>) n (s, w) = Sim_run pg n (s, w)"
proof -
  from Sim_init_sound [OF assms(1)] have "vib_def s0 = None" by (simp add: sound_def)
  moreover from reachable_sound [OF assms(2)] have snd: "sound s" .
  then have "vib_def s = None" by (simp add: sound_def)
  ultimately show ?thesis using no_vib_Sim_run [OF snd] by simp
qed

subsection \<open>The completion flag\<close>

lemma Sim_run_flag:
  assumes "sound s" and "Sim_run pg n (s, w) = (x, s', w')"
  shows "sim_complete s' \<longleftrightarrow> sim_complete s \<or> x = None"
proof -
  note s0 = set_sim_count_sound [OF assms(1)]
  have c0: "sim_complete sc = sim_complete s" if "set_sim_count n s = Inr sc" for sc
    using that by (auto simp: set_sim_count_Inr)
  from assms(2) show ?thesis
  proof (cases rule: Sim_run_cases)
    case (conversion e)
    then show ?thesis by simp
  next
    case (reference e sc)
    from gen_reference_frame [OF reference(1)] have "s' = sc\<lparr>objs := objs s'\<rparr>" ..
    from frame_same(1) [OF this] c0 [OF reference(3)] reference(2) show ?thesis by simp
  next
    case (trial e s1 w1 sc)
    from gen_reference_frame [OF trial(1)] have "s1 = sc\<lparr>objs := objs s1\<rparr>" ..
    from frame_same(1) [OF this] c0 [OF trial(4)] have 1: "sim_complete s1 = sim_complete s" by simp
    from gen_reference_sound [OF s0 [OF trial(4)] trial(1)] have "sound s1" .
    from grows_same(1) [OF run_trials_grows(1) [OF this trial(2)]] 1 trial(3) show ?thesis by simp
  next
    case (complete s1 w1 s2 sc)
    then show ?thesis by simp
  qed
qed

lemma run_trials_failed_trial:
  assumes "sound s1" and "run_trials pg (range0 c) (s1, w1) = (Some e, s', w')"
  shows "\<exists>k sk wk. 0 \<le> k \<and> k < c \<and> run_trials pg (range0 k) (s1, w1) = (None, sk, wk)
            \<and> trial pg k (sk, wk) = (Some e, s', w')
            \<and> (\<forall>i. 0 \<le> i \<and> i < k \<longrightarrow> populated s' i \<and> (\<forall>nm. slot s' nm i = slot sk nm i))"
proof -
  from run_trials_failure [OF assms(2)] obtain pre k post stk where
    d: "range0 c = pre @ k # post" "run_trials pg pre (s1, w1) = (None, stk)"
       "trial pg k stk = (Some e, s', w')" by blast
  obtain sk wk where stk: "stk = (sk, wk)" by (cases stk)
  note r = range0_split [OF d(1)]
  from d(2) r(1) stk have pre: "run_trials pg (range0 k) (s1, w1) = (None, sk, wk)" by simp
  note g1 = run_trials_grows [OF assms(1) pre]
  have sk: "sound sk" using grows_sound [OF g1(1) assms(1)] .
  from d(3) stk have t: "trial pg k (sk, wk) = (Some e, s', w')" by simp
  note g2 = trial_grows(1) [OF sk t]
  have "populated s' i \<and> (\<forall>nm. slot s' nm i = slot sk nm i)" if "0 \<le> i \<and> i < k" for i
  proof -
    from that have "i \<in> set (range0 k)" by (simp add: range0_mem)
    with g1(2) have "populated sk i" by simp
    with g2 have "populated s' i" by (rule grows_populated)
    moreover from that have "i \<notin> {k}" by simp
    from grows_slot_outside [OF g2 this] have "\<forall>nm. slot s' nm i = slot sk nm i" by simp
    ultimately show ?thesis by simp
  qed
  with r(2,3) pre t show ?thesis by blast
qed

text \<open>
  Claim C5, as amended. A call of \<open>run\<close> on any object a caller can hold sets the
  completion flag exactly when it returns without raising; when it raises, the flag keeps
  the value it had before the call (unset on an object no run of which has completed).
  When a trial raises (the count was set, the reference data were generated and the call
  raised \<open>e\<close>), it is some trial \<open>k\<close> below the count, the trials before it ran without
  raising, and for each of them the enabled sensor containers and the declared outputs
  hold an entry, the same entry as when trial \<open>k\<close> began. When the conversion of the
  argument raises, the call raises that exception and the object is as it was.
\<close>

theorem run_completion_flag:
  assumes "reachable pg s" and "Sim_run pg n (s, w) = (x, s', w')"
  shows "(sim_complete s' \<longleftrightarrow> sim_complete s \<or> x = None) \<and>
         (\<forall>sc s1 w1 e. set_sim_count n s = Inr sc
              \<and> gen_reference pg (sc, w) = (None, s1, w1) \<and> x = Some e \<longrightarrow>
            (\<exists>k sk wk. 0 \<le> k \<and> k < sim_count s'
               \<and> run_trials pg (range0 k) (s1, w1) = (None, sk, wk)
               \<and> trial pg k (sk, wk) = (Some e, s', w')
               \<and> (\<forall>i. 0 \<le> i \<and> i < k \<longrightarrow>
                     populated s' i \<and> (\<forall>nm. slot s' nm i = slot sk nm i)))) \<and>
         (\<forall>e. set_sim_count n s = Inl e \<longrightarrow> x = Some e \<and> s' = s \<and> w' = w)"
proof (intro conjI allI impI)
  note snd = reachable_sound [OF assms(1)]
  show "sim_complete s' \<longleftrightarrow> sim_complete s \<or> x = None"
    using snd assms(2) by (rule Sim_run_flag)
  show "x = Some e" "s' = s" "w' = w" if "set_sim_count n s = Inl e" for e
    using that assms(2) by (simp_all add: Sim_run_def)
  fix sc s1 w1 e
  assume a: "set_sim_count n s = Inr sc \<and> gen_reference pg (sc, w) = (None, s1, w1) \<and> x = Some e"
  have s0: "sound sc"
    using snd a by (auto intro: set_sim_count_sound)
  from a gen_reference_sound [OF s0] have s1: "sound s1" by blast
  from assms(2) have r: "run_trials pg (range0 (sim_count s1)) (s1, w1) = (Some e, s', w')"
  proof (cases rule: Sim_run_cases)
    case (conversion e')
    with a show ?thesis by simp
  next
    case (reference e' sc')
    with a show ?thesis by simp
  next
    case (trial e' s1' w1' sc')
    with a show ?thesis by simp
  next
    case (complete s1' w1' s2' sc')
    with a show ?thesis by simp
  qed
  from grows_same(2) [OF run_trials_grows(1) [OF s1 r]]
  have "sim_count s' = sim_count s1" .
  with run_trials_failed_trial [OF s1 r]
  show "\<exists>k sk wk. 0 \<le> k \<and> k < sim_count s'
               \<and> run_trials pg (range0 k) (s1, w1) = (None, sk, wk)
               \<and> trial pg k (sk, wk) = (Some e, s', w')
               \<and> (\<forall>i. 0 \<le> i \<and> i < k \<longrightarrow>
                     populated s' i \<and> (\<forall>nm. slot s' nm i = slot sk nm i))"
    by simp
qed

subsection \<open>Running again\<close>

lemma run_trials_success_split:
  assumes "run_trials pg (pre @ k # post) st = (None, st')"
  shows "\<exists>stk stk'. run_trials pg pre st = (None, stk) \<and> trial pg k stk = (None, stk')
           \<and> run_trials pg post stk' = (None, st')"
proof -
  from assms have "and_then (run_trials pg pre st) (run_trials pg (k # post)) = (None, st')"
    by (simp add: run_trials_append)
  then show ?thesis
  proof (rule and_then_cases)
    fix e assume "None = Some e"
    then show ?thesis by simp
  next
    fix stk assume p: "run_trials pg pre st = (None, stk)"
      and "run_trials pg (k # post) stk = (None, st')"
    then have "and_then (trial pg k stk) (run_trials pg post) = (None, st')" by simp
    then show ?thesis
    proof (rule and_then_cases)
      fix e assume "None = Some e"
      then show ?thesis by simp
    next
      fix stk' assume "trial pg k stk = (None, stk')" "run_trials pg post stk' = (None, st')"
      with p show ?thesis by blast
    qed
  qed
qed

lemma range0_at:
  assumes "0 \<le> i" and "i < c"
  shows "\<exists>post. range0 c = range0 i @ i # post"
proof -
  let ?xs = "map int [0 ..< nat c]"
  have lt: "nat i < length ?xs" using assms by simp
  from id_take_nth_drop [OF lt]
  have "?xs = take (nat i) ?xs @ ?xs ! nat i # drop (Suc (nat i)) ?xs" .
  moreover have "take (nat i) ?xs = map int [0 ..< nat i]"
  proof -
    from assms have "0 + nat i \<le> nat c" by simp
    from take_upt [OF this] show ?thesis by (simp add: take_map)
  qed
  moreover have "?xs ! nat i = i" using lt assms by simp
  ultimately have "range0 c = range0 i @ i # drop (Suc (nat i)) ?xs"
    by (simp only: range0_def)
  then show ?thesis by blast
qed

lemma run_trials_written:
  assumes "sound s1" and "run_trials pg (range0 c) (s1, w1) = (None, s2, w2)"
    and "0 \<le> i" and "i < c"
  shows "\<exists>sk wk sk' wk'. run_trials pg (range0 i) (s1, w1) = (None, sk, wk)
           \<and> trial pg i (sk, wk) = (None, sk', wk') \<and> (\<forall>nm. slot s2 nm i = slot sk' nm i)"
proof -
  from range0_at [OF assms(3,4)] obtain post where p: "range0 c = range0 i @ i # post" ..
  from range0_split(4) [OF p] have ni: "i \<notin> set post" .
  from run_trials_success_split [OF assms(2) [unfolded p]] obtain stk stk' where
    d: "run_trials pg (range0 i) (s1, w1) = (None, stk)" "trial pg i stk = (None, stk')"
       "run_trials pg post stk' = (None, s2, w2)" by blast
  obtain sk wk where stk: "stk = (sk, wk)" by (cases stk)
  obtain sk' wk' where stk': "stk' = (sk', wk')" by (cases stk')
  have sk: "sound sk"
    using grows_sound [OF run_trials_grows(1) [OF assms(1) d(1) [unfolded stk]] assms(1)] .
  have sk': "sound sk'"
    using grows_sound [OF trial_grows(1) [OF sk d(2) [unfolded stk stk']] sk] .
  from run_trials_grows(1) [OF sk' d(3) [unfolded stk']] have "grows (set post) sk' s2" .
  from grows_slot_outside [OF this ni] have "\<forall>nm. slot s2 nm i = slot sk' nm i" by simp
  with d(1,2) stk stk' show ?thesis by blast
qed

subsection \<open>What a trial writes\<close>

lemma slot_objs: "objs s' n = objs s n \<Longrightarrow> slot s' n i = slot s n i"
  by (simp add: slot_def)

lemma attr_objs: "objs s' n = objs s n \<Longrightarrow> attr (objs s') n = attr (objs s) n"
  by (simp add: attr_def)

lemma set_item_frame:
  assumes "set_item n i v s = Inr s'"
  shows "s' = s\<lparr>objs := objs s'\<rparr>" and "\<forall>k. k \<noteq> n \<longrightarrow> objs s' k = objs s k"
    and "slot s' n i = Some v"
  using assms
  by (auto simp: set_item_def slot_def split: option.splits payload.splits)

lemma store_gen_NoneD:
  assumes "store_gen n i r s = (None, s', w')"
  shows "\<exists>v. r = (Inr v, w') \<and> set_item n i v s = Inr s'"
  using assms by (auto simp: store_gen_def split: prod.splits sum.splits)

lemma and_then_NoneD:
  assumes "and_then r f = (None, st')"
  shows "\<exists>st. r = (None, st) \<and> f st = (None, st')"
  using assms by (rule and_then_cases) simp_all

lemma trial_NoneD:
  assumes "trial pg i st = (None, st')"
  shows "\<exists>sta stg stp stm. accel_stage pg i st = (None, sta) \<and> gyro_stage pg i sta = (None, stg)
           \<and> gps_stage pg i stg = (None, stp) \<and> mag_stage pg i stp = (None, stm)
           \<and> algo_stage i stm = (None, st')"
proof -
  from assms have h: "and_then (and_then (and_then (and_then (accel_stage pg i st) (gyro_stage pg i))
                                  (gps_stage pg i)) (mag_stage pg i)) (algo_stage i) = (None, st')"
    by (simp add: trial_def)
  from and_then_NoneD [OF h] obtain stm where
    a4: "and_then (and_then (and_then (accel_stage pg i st) (gyro_stage pg i))
                                  (gps_stage pg i)) (mag_stage pg i) = (None, stm)"
    and a5: "algo_stage i stm = (None, st')" by blast
  from and_then_NoneD [OF a4] obtain stp where
    a3: "and_then (and_then (accel_stage pg i st) (gyro_stage pg i)) (gps_stage pg i) = (None, stp)"
    and b4: "mag_stage pg i stp = (None, stm)" by blast
  from and_then_NoneD [OF a3] obtain stg where
    a2: "and_then (accel_stage pg i st) (gyro_stage pg i) = (None, stg)"
    and b3: "gps_stage pg i stg = (None, stp)" by blast
  from and_then_NoneD [OF a2] obtain sta where
    a1: "accel_stage pg i st = (None, sta)"
    and b2: "gyro_stage pg i sta = (None, stg)" by blast
  from a1 b2 b3 b4 a5 show ?thesis by blast
qed

lemma assign_items_values:
  assumes "assign_items i (map Self_data_at ns) vs s = (None, s')" and "length vs = length ns"
  shows "s' = s\<lparr>objs := objs s'\<rparr> \<and> (\<forall>k. k \<notin> set ns \<longrightarrow> objs s' k = objs s k)
       \<and> (\<forall>j < length ns. ns ! j \<notin> set (drop (Suc j) ns) \<longrightarrow> slot s' (ns ! j) i = Some (vs ! j))"
  using assms
proof (induction ns arbitrary: vs s)
  case Nil
  then show ?case by simp
next
  case (Cons n ns)
  from Cons.prems(2) obtain v vs' where vs: "vs = v # vs'" "length vs' = length ns"
    by (cases vs) auto
  from Cons.prems(1) vs obtain s1 where
    a: "set_item n i v s = Inr s1" and b: "assign_items i (map Self_data_at ns) vs' s1 = (None, s')"
    by (auto split: sum.splits)
  note f = set_item_frame [OF a]
  note ih = Cons.IH [OF b vs(2)]
  from ih have e: "s' = s1\<lparr>objs := objs s'\<rparr>" by blast
  have 1: "s' = s\<lparr>objs := objs s'\<rparr>" by (subst e, subst f(1)) simp
  have 2: "\<forall>k. k \<notin> set (n # ns) \<longrightarrow> objs s' k = objs s k"
    using ih f(2) by auto
  have 3: "slot s' ((n # ns) ! j) i = Some (vs ! j)"
    if "j < length (n # ns)" and "(n # ns) ! j \<notin> set (drop (Suc j) (n # ns))" for j
  proof (cases j)
    case 0
    with that(2) have "n \<notin> set ns" by simp
    with ih have "objs s' n = objs s1 n" by blast
    from slot_objs [OF this] f(3) 0 vs(1) show ?thesis by simp
  next
    case (Suc j')
    with that ih vs(1) show ?thesis by simp
  qed
  from 1 2 3 show ?case by blast
qed

lemma eval_items_in:
  assumes "eval_items s i (map (in_item c) ns) = Inr args"
    and "\<forall>n \<in> set ns. c (Name n) = None \<longrightarrow> (\<exists>d m. objs s n = Some d \<and> data d = Dict m)"
  shows "args = map (\<lambda>n. if c (Name n) \<noteq> None then data (attr (objs s) n)
                         else Val (the (slot s n i))) ns"
  using assms
proof (induction ns arbitrary: args)
  case Nil
  then show ?case by simp
next
  case (Cons n ns)
  from Cons.prems(1) obtain v vs where
    h: "(case in_item c n of
              Self_data n \<Rightarrow> (case objs s n of None \<Rightarrow> Inl AttributeError | Some d \<Rightarrow> Inr (data d))
            | Self_data_at n \<Rightarrow> (case get_item n i s of Inl e \<Rightarrow> Inl e | Inr v \<Rightarrow> Inr (Val v))
            | _ \<Rightarrow> Inl SyntaxError) = Inr v"
    and t: "eval_items s i (map (in_item c) ns) = Inr vs" and a: "args = v # vs"
    by (auto split: sum.splits)
  from Cons.prems(2) have "\<forall>n \<in> set ns. c (Name n) = None \<longrightarrow> (\<exists>d m. objs s n = Some d \<and> data d = Dict m)"
    by simp
  note ih = Cons.IH [OF t this]
  have "v = (if c (Name n) \<noteq> None then data (attr (objs s) n) else Val (the (slot s n i)))"
  proof (cases "c (Name n) \<noteq> None")
    case True
    with h show ?thesis by (auto simp: in_item_def attr_def split: option.splits)
  next
    case False
    with Cons.prems(2) obtain d m where d: "objs s n = Some d" "data d = Dict m" by auto
    from False h d show ?thesis
      by (auto simp: in_item_def get_item_def payload_get_def slot_def split: option.splits sum.splits)
  qed
  with a ih show ?case by simp
qed

lemma accel_stage_NoneD:
  assumes "accel_stage pg i (s, w) = (None, s', w')"
  shows "\<exists>v. acc_gen pg (data (attr (objs s) ''fs'')) (data (attr (objs s) ''ref_accel''))
                 (accel_err (imu s)) (vib_def s) w = (Inr v, w')
           \<and> set_item ''accel'' i v s = Inr s'"
  using assms store_gen_NoneD [of "''accel''" i _ s s' w'] by (simp add: accel_stage_def)

lemma gyro_stage_NoneD:
  assumes "gyro_stage pg i (s, w) = (None, s', w')"
  shows "\<exists>v. gyro_gen pg (data (attr (objs s) ''fs'')) (data (attr (objs s) ''ref_gyro''))
                 (gyro_err (imu s)) w = (Inr v, w')
           \<and> set_item ''gyro'' i v s = Inr s'"
  using assms store_gen_NoneD [of "''gyro''" i _ s s' w'] by (simp add: gyro_stage_def)

lemma gps_stage_NoneD:
  assumes "gps_stage pg i (s, w) = (None, s', w')"
  shows "if gps (imu s)
         then \<exists>v. gps_gen pg (data (attr (objs s) ''ref_gps'')) (gps_err (imu s))
                      (data (attr (objs s) ''ref_frame'')) w = (Inr v, w')
                \<and> set_item ''gps'' i v s = Inr s'
         else s' = s \<and> w' = w"
  using assms store_gen_NoneD [of "''gps''" i _ s s' w']
  by (auto simp: gps_stage_def split: if_splits)

lemma mag_stage_NoneD:
  assumes "mag_stage pg i (s, w) = (None, s', w')"
  shows "if magnetometer (imu s)
         then \<exists>v. mag_gen pg (data (attr (objs s) ''ref_mag'')) (mag_err (imu s)) w = (Inr v, w')
                \<and> set_item ''mag'' i v s = Inr s'
         else s' = s \<and> w' = w"
  using assms store_gen_NoneD [of "''mag''" i _ s s' w']
  by (auto simp: mag_stage_def split: if_splits)

lemma algo_stage_NoneD:
  assumes "sound s" and "algo s = Some a" and "algo_stage i (s, w) = (None, s', w')"
  shows "\<exists>args wr vs.
           eval_items s i (map (in_item (supported_in_constant s)) (input_names a)) = Inr args
         \<and> algo_run a args w = (None, wr) \<and> get_results a wr = (Inr vs, w')
         \<and> length vs = length (output_names a)
         \<and> assign_items i (map Self_data_at (output_names a)) vs s = (None, s')"
proof -
  from assms(1,2) have
    i: "expr_items (algo_in_expr s) = Inr (map (in_item (supported_in_constant s)) (input_names a))"
    and o: "expr_items (algo_out_expr s) = Inr (map Self_data_at (output_names a))"
    by (simp_all add: sound_def expr_items_bound is_item_out is_item_in)
  from assms(3) show ?thesis
    by (auto simp: algo_stage_def assms(2) i o split: sum.splits prod.splits option.splits if_splits)
qed

lemma algo_stage_noneD:
  "algo s = None \<Longrightarrow> algo_stage i (s, w) = (x, s', w') \<Longrightarrow> x = None \<and> s' = s \<and> w' = w"
  by (simp add: algo_stage_def)

lemma sound_names:
  assumes "sound s"
  shows "supported_in_constant s (Name n) \<noteq> None \<Longrightarrow> n \<notin> {''accel'', ''gyro'', ''gps'', ''mag''}"
    and "supported_in_varying s (Name n) \<noteq> None \<Longrightarrow> n \<in> {''accel'', ''gyro'', ''gps'', ''mag''}"
    and "supported_out s (Name n) \<noteq> None \<Longrightarrow> n \<notin> {''accel'', ''gyro'', ''gps'', ''mag''}"
    and "supported_out s (Name n) \<noteq> None \<Longrightarrow> supported_in_constant s (Name n) = None"
proof -
  from assms obtain f0 where
    r: "supported_in_constant s = init_supported_in_constant (new_containers f0) (imu s)"
       "supported_in_varying s = init_supported_in_varying (new_containers f0) (imu s)"
       "supported_out s = init_supported_out (new_containers f0)"
    unfolding sound_def by blast
  show "supported_in_constant s (Name n) \<noteq> None \<Longrightarrow> n \<notin> {''accel'', ''gyro'', ''gps'', ''mag''}"
    unfolding r supported_in_constant_eq by (auto split: if_splits)
  show "supported_in_varying s (Name n) \<noteq> None \<Longrightarrow> n \<in> {''accel'', ''gyro'', ''gps'', ''mag''}"
    unfolding r supported_in_varying_eq by (auto split: if_splits)
  show "supported_out s (Name n) \<noteq> None \<Longrightarrow> n \<notin> {''accel'', ''gyro'', ''gps'', ''mag''}"
    unfolding r supported_out_eq by (auto split: if_splits)
  show "supported_out s (Name n) \<noteq> None \<Longrightarrow> supported_in_constant s (Name n) = None"
    unfolding r using registry_disjoint(2) [of f0 "imu s" "Name n"] by (cases "init_supported_in_constant (new_containers f0) (imu s) (Name n)") simp_all
qed

lemma trial_values:
  assumes "sound s" and "trial pg i (s, w) = (None, s', w')"
  shows "\<exists>va wa vg wg wp wm.
      acc_gen pg (data (attr (objs s) ''fs'')) (data (attr (objs s) ''ref_accel''))
              (accel_err (imu s)) (vib_def s) w = (Inr va, wa)
    \<and> slot s' ''accel'' i = Some va
    \<and> gyro_gen pg (data (attr (objs s) ''fs'')) (data (attr (objs s) ''ref_gyro''))
               (gyro_err (imu s)) wa = (Inr vg, wg)
    \<and> slot s' ''gyro'' i = Some vg
    \<and> (if gps (imu s)
        then \<exists>vp. gps_gen pg (data (attr (objs s) ''ref_gps'')) (gps_err (imu s))
                      (data (attr (objs s) ''ref_frame'')) wg = (Inr vp, wp)
                \<and> slot s' ''gps'' i = Some vp
        else wp = wg \<and> slot s' ''gps'' i = slot s ''gps'' i)
    \<and> (if magnetometer (imu s)
        then \<exists>vm. mag_gen pg (data (attr (objs s) ''ref_mag'')) (mag_err (imu s)) wp = (Inr vm, wm)
                \<and> slot s' ''mag'' i = Some vm
        else wm = wp \<and> slot s' ''mag'' i = slot s ''mag'' i)
    \<and> (case algo s of
          None \<Rightarrow> w' = wm
            \<and> (\<forall>nm. nm \<notin> {''accel'', ''gyro'', ''gps'', ''mag''} \<longrightarrow> slot s' nm i = slot s nm i)
        | Some a \<Rightarrow>
            \<exists>wr vs. algo_run a (map (\<lambda>n. if supported_in_constant s (Name n) \<noteq> None
                                           then data (attr (objs s) n)
                                           else Val (the (slot s' n i))) (input_names a)) wm
                       = (None, wr)
              \<and> get_results a wr = (Inr vs, w')
              \<and> length vs = length (output_names a)
              \<and> (\<forall>j < length vs. output_names a ! j \<notin> set (drop (Suc j) (output_names a)) \<longrightarrow>
                    slot s' (output_names a ! j) i = Some (vs ! j))
              \<and> (\<forall>nm. nm \<notin> {''accel'', ''gyro'', ''gps'', ''mag''} \<union> set (output_names a) \<longrightarrow>
                    slot s' nm i = slot s nm i))"
proof -
  let ?F = "{''accel'', ''gyro'', ''gps'', ''mag''}"
  from trial_NoneD [OF assms(2)] obtain sta stg stp stm where
    st: "accel_stage pg i (s, w) = (None, sta)" "gyro_stage pg i sta = (None, stg)"
        "gps_stage pg i stg = (None, stp)" "mag_stage pg i stp = (None, stm)"
        "algo_stage i stm = (None, s', w')" by blast
  obtain sa wa where sta: "sta = (sa, wa)" by (cases sta)
  obtain sg wg where stg: "stg = (sg, wg)" by (cases stg)
  obtain sp wp where stp: "stp = (sp, wp)" by (cases stp)
  obtain sm wm where stm: "stm = (sm, wm)" by (cases stm)
  note a1 = st(1) [unfolded sta]
  note a2 = st(2) [unfolded sta stg]
  note a3 = st(3) [unfolded stg stp]
  note a4 = st(4) [unfolded stp stm]
  note a5 = st(5) [unfolded stm]
  have snd_a: "sound sa" using grows_sound [OF accel_stage_grows(1) [OF a1] assms(1)] .
  have snd_g: "sound sg" using grows_sound [OF gyro_stage_grows(1) [OF a2] snd_a] .
  have snd_p: "sound sp" using grows_sound [OF gps_stage_grows(1) [OF a3] snd_g] .
  have snd_m: "sound sm" using grows_sound [OF mag_stage_grows(1) [OF a4] snd_p] .
  from accel_stage_NoneD [OF a1] obtain va where
    ca: "acc_gen pg (data (attr (objs s) ''fs'')) (data (attr (objs s) ''ref_accel''))
              (accel_err (imu s)) (vib_def s) w = (Inr va, wa)"
    and ia: "set_item ''accel'' i va s = Inr sa" by blast
  note fa = set_item_frame [OF ia]
  note ea = frame_same [OF fa(1)]
  from gyro_stage_NoneD [OF a2] obtain vg where
    cg0: "gyro_gen pg (data (attr (objs sa) ''fs'')) (data (attr (objs sa) ''ref_gyro''))
               (gyro_err (imu sa)) wa = (Inr vg, wg)"
    and ig: "set_item ''gyro'' i vg sa = Inr sg" by blast
  note fg = set_item_frame [OF ig]
  note eg = frame_same [OF fg(1)]
  have oa: "objs sa k = objs s k" if "k \<noteq> ''accel''" for k using fa(2) that by simp
  have og: "objs sg k = objs s k" if "k \<notin> {''accel'', ''gyro''}" for k
    using fg(2) oa that by simp
  have cg: "gyro_gen pg (data (attr (objs s) ''fs'')) (data (attr (objs s) ''ref_gyro''))
               (gyro_err (imu s)) wa = (Inr vg, wg)"
    using cg0 by (simp add: attr_objs [OF oa] ea)
  have gp: "sp = sg\<lparr>objs := objs sp\<rparr> \<and> (\<forall>k. k \<noteq> ''gps'' \<longrightarrow> objs sp k = objs sg k)
        \<and> (if gps (imu s)
            then \<exists>vp. gps_gen pg (data (attr (objs s) ''ref_gps'')) (gps_err (imu s))
                      (data (attr (objs s) ''ref_frame'')) wg = (Inr vp, wp)
                    \<and> slot sp ''gps'' i = Some vp
            else wp = wg \<and> sp = sg)"
  proof (cases "gps (imu s)")
    case True
    then have "gps (imu sg)" by (simp add: eg ea)
    with gps_stage_NoneD [OF a3] obtain vp where
      c: "gps_gen pg (data (attr (objs sg) ''ref_gps'')) (gps_err (imu sg))
                      (data (attr (objs sg) ''ref_frame'')) wg = (Inr vp, wp)"
      and i: "set_item ''gps'' i vp sg = Inr sp" by auto
    note f = set_item_frame [OF i]
    from c have "gps_gen pg (data (attr (objs s) ''ref_gps'')) (gps_err (imu s))
                      (data (attr (objs s) ''ref_frame'')) wg = (Inr vp, wp)"
      by (simp add: attr_objs [OF og] eg ea)
    with True f show ?thesis by auto
  next
    case False
    then have "\<not> gps (imu sg)" by (simp add: eg ea)
    with gps_stage_NoneD [OF a3] have "sp = sg \<and> wp = wg" by simp
    with False show ?thesis by simp
  qed
  from gp have fp1: "sp = sg\<lparr>objs := objs sp\<rparr>" by blast
  note ep = frame_same [OF fp1]
  have op: "objs sp k = objs s k" if "k \<notin> {''accel'', ''gyro'', ''gps''}" for k
    using gp og that by simp
  have mg: "sm = sp\<lparr>objs := objs sm\<rparr> \<and> (\<forall>k. k \<noteq> ''mag'' \<longrightarrow> objs sm k = objs sp k)
        \<and> (if magnetometer (imu s)
            then \<exists>vm. mag_gen pg (data (attr (objs s) ''ref_mag'')) (mag_err (imu s)) wp = (Inr vm, wm)
                    \<and> slot sm ''mag'' i = Some vm
            else wm = wp \<and> sm = sp)"
  proof (cases "magnetometer (imu s)")
    case True
    then have "magnetometer (imu sp)" by (simp add: ep eg ea)
    with mag_stage_NoneD [OF a4] obtain vm where
      c: "mag_gen pg (data (attr (objs sp) ''ref_mag'')) (mag_err (imu sp)) wp = (Inr vm, wm)"
      and i: "set_item ''mag'' i vm sp = Inr sm" by auto
    note f = set_item_frame [OF i]
    from c have "mag_gen pg (data (attr (objs s) ''ref_mag'')) (mag_err (imu s)) wp = (Inr vm, wm)"
      by (simp add: attr_objs [OF op] ep eg ea)
    with True f show ?thesis by auto
  next
    case False
    then have "\<not> magnetometer (imu sp)" by (simp add: ep eg ea)
    with mag_stage_NoneD [OF a4] have "sm = sp \<and> wm = wp" by simp
    with False show ?thesis by simp
  qed
  from mg have fm1: "sm = sp\<lparr>objs := objs sm\<rparr>" by blast
  note em = frame_same [OF fm1]
  have om: "objs sm k = objs s k" if "k \<notin> ?F" for k
    using mg op that by simp
  have m_accel: "slot sm ''accel'' i = Some va"
  proof -
    have "objs sm ''accel'' = objs sa ''accel''" using mg gp fg(2) by simp
    from slot_objs [OF this] fa(3) show ?thesis by simp
  qed
  have m_gyro: "slot sm ''gyro'' i = Some vg"
  proof -
    have "objs sm ''gyro'' = objs sg ''gyro''" using mg gp by simp
    from slot_objs [OF this] fg(3) show ?thesis by simp
  qed
  have m_gps: "if gps (imu s)
        then \<exists>vp. gps_gen pg (data (attr (objs s) ''ref_gps'')) (gps_err (imu s))
                      (data (attr (objs s) ''ref_frame'')) wg = (Inr vp, wp)
                \<and> slot sm ''gps'' i = Some vp
        else wp = wg \<and> slot sm ''gps'' i = slot s ''gps'' i"
  proof -
    have 1: "objs sm ''gps'' = objs sp ''gps''" using mg by simp
    have 2: "objs sg ''gps'' = objs s ''gps''" by (rule og) simp
    show ?thesis
    proof (cases "gps (imu s)")
      case True
      with gp slot_objs [OF 1, of i] show ?thesis by auto
    next
      case False
      with gp have "wp = wg" "sp = sg" by simp_all
      with 1 2 have "objs sm ''gps'' = objs s ''gps''" by simp
      from slot_objs [OF this] False \<open>wp = wg\<close> show ?thesis by simp
    qed
  qed
  have m_mag: "if magnetometer (imu s)
        then \<exists>vm. mag_gen pg (data (attr (objs s) ''ref_mag'')) (mag_err (imu s)) wp = (Inr vm, wm)
                \<and> slot sm ''mag'' i = Some vm
        else wm = wp \<and> slot sm ''mag'' i = slot s ''mag'' i"
  proof (cases "magnetometer (imu s)")
    case True
    with mg show ?thesis by auto
  next
    case False
    with mg have "wm = wp" "sm = sp" by simp_all
    moreover have "objs sp ''mag'' = objs s ''mag''" by (rule op) simp
    ultimately have "objs sm ''mag'' = objs s ''mag''" by simp
    from slot_objs [OF this] False \<open>wm = wp\<close> show ?thesis by simp
  qed
  have al: "algo sm = algo s" "supported_in_constant sm = supported_in_constant s"
    by (simp_all add: em ep eg ea)
  have "case algo s of
          None \<Rightarrow> w' = wm \<and> (\<forall>nm. nm \<in> ?F \<longrightarrow> slot s' nm i = slot sm nm i)
            \<and> (\<forall>nm. nm \<notin> ?F \<longrightarrow> slot s' nm i = slot s nm i)
        | Some a \<Rightarrow>
            \<exists>wr vs. algo_run a (map (\<lambda>n. if supported_in_constant s (Name n) \<noteq> None
                                           then data (attr (objs s) n)
                                           else Val (the (slot s' n i))) (input_names a)) wm
                       = (None, wr)
              \<and> get_results a wr = (Inr vs, w')
              \<and> length vs = length (output_names a)
              \<and> (\<forall>j < length vs. output_names a ! j \<notin> set (drop (Suc j) (output_names a)) \<longrightarrow>
                    slot s' (output_names a ! j) i = Some (vs ! j))
              \<and> (\<forall>nm. nm \<in> ?F \<longrightarrow> slot s' nm i = slot sm nm i)
              \<and> (\<forall>nm. nm \<notin> ?F \<union> set (output_names a) \<longrightarrow> slot s' nm i = slot s nm i)"
  proof (cases "algo s")
    case None
    with al have "algo sm = None" by simp
    from algo_stage_noneD [OF this a5] have e: "s' = sm" "w' = wm" by simp_all
    have "slot s' nm i = slot s nm i" if "nm \<notin> ?F" for nm
      unfolding e by (rule slot_objs, rule om, rule that)
    with None e show ?thesis by simp
  next
    case (Some a)
    with al have am: "algo sm = Some a" by simp
    from algo_stage_NoneD [OF snd_m am a5] obtain args wr vs where
      ev: "eval_items sm i (map (in_item (supported_in_constant sm)) (input_names a)) = Inr args"
      and ru: "algo_run a args wm = (None, wr)" and ge: "get_results a wr = (Inr vs, w')"
      and le: "length vs = length (output_names a)"
      and asg: "assign_items i (map Self_data_at (output_names a)) vs sm = (None, s')" by blast
    note av = assign_items_values [OF asg le]
    from snd_m am have io: "\<forall>n \<in> set (input_names a). supported_in_constant sm (Name n) \<noteq> None
                \<or> supported_in_varying sm (Name n) \<noteq> None"
      and oo: "\<forall>n \<in> set (output_names a). supported_out sm (Name n) \<noteq> None"
      and pt: "\<forall>n \<in> set per_trial_names. \<exists>d m. objs sm n = Some d \<and> data d = Dict m"
      unfolding sound_def by blast+
    have out_F: "n \<notin> ?F" if "n \<in> set (output_names a)" for n
      using sound_names(3) [OF snd_m, of n] oo that by blast
    have keep: "objs s' n = objs sm n" if "n \<in> ?F" for n
    proof -
      from that out_F have "n \<notin> set (output_names a)" by blast
      with av show ?thesis by blast
    qed
    have dict: "\<forall>n \<in> set (input_names a). supported_in_constant sm (Name n) = None \<longrightarrow>
        (\<exists>d m. objs sm n = Some d \<and> data d = Dict m)"
    proof (intro ballI impI)
      fix n assume n: "n \<in> set (input_names a)" and c: "supported_in_constant sm (Name n) = None"
      with io have "supported_in_varying sm (Name n) \<noteq> None" by blast
      from sound_names(2) [OF snd_m this] have "n \<in> set per_trial_names"
        by (auto simp: per_trial_names_def)
      with pt show "\<exists>d m. objs sm n = Some d \<and> data d = Dict m" by blast
    qed
    note ar = eval_items_in [OF ev dict]
    have mc: "map (\<lambda>n. if supported_in_constant sm (Name n) \<noteq> None then data (attr (objs sm) n)
                         else Val (the (slot sm n i))) (input_names a)
        = map (\<lambda>n. if supported_in_constant s (Name n) \<noteq> None then data (attr (objs s) n)
                         else Val (the (slot s' n i))) (input_names a)"
    proof (rule map_cong [OF refl])
      fix n assume n: "n \<in> set (input_names a)"
      show "(if supported_in_constant sm (Name n) \<noteq> None then data (attr (objs sm) n)
                         else Val (the (slot sm n i)))
          = (if supported_in_constant s (Name n) \<noteq> None then data (attr (objs s) n)
                         else Val (the (slot s' n i)))"
      proof (cases "supported_in_constant sm (Name n) \<noteq> None")
        case True
        from sound_names(1) [OF snd_m True] have "n \<notin> ?F" .
        from attr_objs [OF om [OF this]] True show ?thesis by (simp add: al)
      next
        case False
        with io n have "supported_in_varying sm (Name n) \<noteq> None" by blast
        from sound_names(2) [OF snd_m this] have "n \<in> ?F" .
        from slot_objs [OF keep [OF this], of i] False show ?thesis by (simp add: al)
      qed
    qed
    from ru have ru': "algo_run a (map (\<lambda>n. if supported_in_constant s (Name n) \<noteq> None
                                           then data (attr (objs s) n)
                                           else Val (the (slot s' n i))) (input_names a)) wm
                       = (None, wr)" unfolding ar mc .
    have F: "\<forall>nm. nm \<in> ?F \<longrightarrow> slot s' nm i = slot sm nm i"
      using slot_objs [OF keep] by blast
    have other: "slot s' nm i = slot s nm i" if "nm \<notin> ?F \<union> set (output_names a)" for nm
    proof -
      from that av have "objs s' nm = objs sm nm" by blast
      moreover from that have "objs sm nm = objs s nm" by (intro om) simp
      ultimately show ?thesis by (intro slot_objs) simp
    qed
    from av le have vals: "\<forall>j < length vs. output_names a ! j \<notin> set (drop (Suc j) (output_names a)) \<longrightarrow>
                    slot s' (output_names a ! j) i = Some (vs ! j)" by simp
    from Some ru' ge le vals F other show ?thesis by auto
  qed
  then have alg: "(\<forall>nm. nm \<in> ?F \<longrightarrow> slot s' nm i = slot sm nm i) \<and>
      (case algo s of
          None \<Rightarrow> w' = wm \<and> (\<forall>nm. nm \<notin> ?F \<longrightarrow> slot s' nm i = slot s nm i)
        | Some a \<Rightarrow>
            \<exists>wr vs. algo_run a (map (\<lambda>n. if supported_in_constant s (Name n) \<noteq> None
                                           then data (attr (objs s) n)
                                           else Val (the (slot s' n i))) (input_names a)) wm
                       = (None, wr)
              \<and> get_results a wr = (Inr vs, w')
              \<and> length vs = length (output_names a)
              \<and> (\<forall>j < length vs. output_names a ! j \<notin> set (drop (Suc j) (output_names a)) \<longrightarrow>
                    slot s' (output_names a ! j) i = Some (vs ! j))
              \<and> (\<forall>nm. nm \<notin> ?F \<union> set (output_names a) \<longrightarrow> slot s' nm i = slot s nm i))"
    by (cases "algo s") auto
  then have F: "slot s' ''accel'' i = slot sm ''accel'' i" "slot s' ''gyro'' i = slot sm ''gyro'' i"
    "slot s' ''gps'' i = slot sm ''gps'' i" "slot s' ''mag'' i = slot sm ''mag'' i" by simp_all
  from ca cg m_accel m_gyro m_gps m_mag alg F show ?thesis
    by (intro exI [of _ va] exI [of _ wa] exI [of _ vg] exI [of _ wg] exI [of _ wp] exI [of _ wm])
       simp
qed

lemma run_prefix_same:
  assumes "sound s" and "set_sim_count m s = Inr sc" and "gen_reference pg (sc, w) = (None, s1, w1)"
    and "run_trials pg pre (s1, w1) = (None, sk, wk)"
  shows "sound sk" and "imu sk = imu s" and "algo sk = algo s" and "vib_def sk = vib_def s"
    and "supported_in_constant sk = supported_in_constant s"
    and "nm \<in> set per_trial_names \<Longrightarrow> i \<notin> set pre \<Longrightarrow> slot sk nm i = slot s nm i"
proof -
  note s0 = set_sim_count_sound [OF assms(1,2)]
  from assms(2) obtain c where sc: "sc = s\<lparr>sim_count := max 1 c\<rparr>"
    by (auto simp: set_sim_count_Inr)
  note fr = gen_reference_frame [OF assms(3)]
  then have e: "s1 = sc\<lparr>objs := objs s1\<rparr>" ..
  have s1: "sound s1" using gen_reference_sound [OF s0 assms(3)] .
  note g = run_trials_grows(1) [OF s1 assms(4)]
  show "sound sk" using grows_sound [OF g s1] .
  show "imu sk = imu s" "algo sk = algo s" "vib_def sk = vib_def s"
    "supported_in_constant sk = supported_in_constant s"
    by (simp_all add: grows_same [OF g] frame_same [OF e] sc)
  show "slot sk nm i = slot s nm i" if "nm \<in> set per_trial_names" and "i \<notin> set pre"
  proof -
    from grows_slot_outside [OF g that(2)] have "slot sk nm i = slot s1 nm i" .
    also from frame_slot [OF fr that(1)] have "slot s1 nm i = slot sc nm i" .
    finally show ?thesis by (simp add: sc)
  qed
qed

text \<open>
  Claim C8. When \<open>run\<close> returns on an object a caller can hold, the new count is
  \<open>max(1, int(m))\<close>, and for every trial index \<open>i\<close> below it the entries at \<open>i\<close> are the
  values generated in this run, whatever was stored before: with \<open>sk\<close>, \<open>wk\<close> the object
  and the collaborators when trial \<open>i\<close> begins, the entry of \<open>accel\<close> is what \<open>acc_gen\<close>
  returns, that of \<open>gyro\<close> what \<open>gyro_gen\<close> returns next, those of \<open>gps\<close> and \<open>mag\<close> what
  \<open>gps_gen\<close> and \<open>mag_gen\<close> return when the sensor is enabled, and the entry of each
  declared output is the value that \<open>get_results\<close> returns for it (for a name declared
  twice, the last one) after the algorithm ran on the constant data and on the sensor
  entries of trial \<open>i\<close>. The entry of a disabled sensor, and of every other per-trial
  container that trial \<open>i\<close> does not assign, is what it was before the call. Every entry
  of a per-trial container at an index outside \<open>0..sim_count-1\<close> is what it was before the
  call, so after a run with a larger count the entries from the new count on remain.
\<close>

theorem rerun_overwrites_in_place:
  assumes "reachable pg s" and "Sim_run pg m (s, w) = (None, s', w')"
  shows "(\<exists>c. builtin_int m = Inr c \<and> sim_count s' = max 1 c) \<and>
     (\<forall>i. 0 \<le> i \<and> i < sim_count s' \<longrightarrow>
        populated s' i \<and>
        (\<exists>sc s1 w1 sk wk va wa vg wg wp wm.
            set_sim_count m s = Inr sc \<and> gen_reference pg (sc, w) = (None, s1, w1)
          \<and> run_trials pg (range0 i) (s1, w1) = (None, sk, wk)
          \<and> acc_gen pg (data (attr (objs sk) ''fs'')) (data (attr (objs sk) ''ref_accel''))
                    (accel_err (imu s)) (vib_def s) wk = (Inr va, wa)
          \<and> slot s' ''accel'' i = Some va
          \<and> gyro_gen pg (data (attr (objs sk) ''fs'')) (data (attr (objs sk) ''ref_gyro''))
                     (gyro_err (imu s)) wa = (Inr vg, wg)
          \<and> slot s' ''gyro'' i = Some vg
          \<and> (if gps (imu s)
              then \<exists>vp. gps_gen pg (data (attr (objs sk) ''ref_gps'')) (gps_err (imu s))
                            (data (attr (objs sk) ''ref_frame'')) wg = (Inr vp, wp)
                      \<and> slot s' ''gps'' i = Some vp
              else wp = wg \<and> slot s' ''gps'' i = slot s ''gps'' i)
          \<and> (if magnetometer (imu s)
              then \<exists>vm. mag_gen pg (data (attr (objs sk) ''ref_mag'')) (mag_err (imu s)) wp
                          = (Inr vm, wm)
                      \<and> slot s' ''mag'' i = Some vm
              else wm = wp \<and> slot s' ''mag'' i = slot s ''mag'' i)
          \<and> (case algo s of
                None \<Rightarrow>
                  (\<forall>nm. nm \<in> set per_trial_names \<and> nm \<notin> {''accel'', ''gyro'', ''gps'', ''mag''} \<longrightarrow>
                     slot s' nm i = slot s nm i)
              | Some a \<Rightarrow>
                  (\<exists>wr vs w2.
                      algo_run a (map (\<lambda>n. if supported_in_constant s (Name n) \<noteq> None
                                            then data (attr (objs sk) n)
                                            else Val (the (slot s' n i))) (input_names a)) wm
                        = (None, wr)
                    \<and> get_results a wr = (Inr vs, w2)
                    \<and> length vs = length (output_names a)
                    \<and> (\<forall>j < length vs.
                          output_names a ! j \<notin> set (drop (Suc j) (output_names a)) \<longrightarrow>
                          slot s' (output_names a ! j) i = Some (vs ! j))
                    \<and> (\<forall>nm. nm \<in> set per_trial_names
                            \<and> nm \<notin> {''accel'', ''gyro'', ''gps'', ''mag''} \<union> set (output_names a) \<longrightarrow>
                          slot s' nm i = slot s nm i))))) \<and>
     (\<forall>nm i. nm \<in> set per_trial_names \<and> (i < 0 \<or> sim_count s' \<le> i) \<longrightarrow>
        slot s' nm i = slot s nm i)"
proof -
  note snd = reachable_sound [OF assms(1)]
  from assms(2) have "\<exists>sc s1 w1 s2.
      set_sim_count m s = Inr sc \<and>
      gen_reference pg (sc, w) = (None, s1, w1) \<and>
      run_trials pg (range0 (sim_count s1)) (s1, w1) = (None, s2, w') \<and>
      s' = s2\<lparr>sim_complete := True\<rparr>"
  proof (cases rule: Sim_run_cases)
    case (conversion e')
    then show ?thesis by simp
  next
    case (reference e' sc')
    then show ?thesis by simp
  next
    case (trial e' s1' w1' sc')
    then show ?thesis by simp
  next
    case (complete s1' w1' s2' sc')
    then show ?thesis by blast
  qed
  then obtain sc s1 w1 s2 where
    sc: "set_sim_count m s = Inr sc" and
    g: "gen_reference pg (sc, w) = (None, s1, w1)" and
    r: "run_trials pg (range0 (sim_count s1)) (s1, w1) = (None, s2, w')" and
    s': "s' = s2\<lparr>sim_complete := True\<rparr>"
    by blast
  from sc obtain c where c: "builtin_int m = Inr c" by (auto simp: set_sim_count_Inr)
  note cnt = Sim_run_sim_count [OF snd assms(2) c]
  have s0: "sound sc" using snd sc by (rule set_sim_count_sound)
  have s1: "sound s1" using gen_reference_sound [OF s0 g] .
  note gr = run_trials_grows [OF s1 r]
  have c1: "sim_count s1 = sim_count s'"
    using grows_same(2) [OF gr(1)] s' by simp
  have pop: "populated s' i" if "0 \<le> i \<and> i < sim_count s'" for i
  proof -
    from that c1 have "i \<in> set (range0 (sim_count s1))" by (simp add: range0_mem)
    with gr(2) have "populated s2 i" by simp
    then show ?thesis by (simp add: s' populated_def declared_outputs_def)
  qed
  have wr: "\<exists>sc s1 w1 sk wk va wa vg wg wp wm.
            set_sim_count m s = Inr sc \<and> gen_reference pg (sc, w) = (None, s1, w1)
          \<and> run_trials pg (range0 i) (s1, w1) = (None, sk, wk)
          \<and> acc_gen pg (data (attr (objs sk) ''fs'')) (data (attr (objs sk) ''ref_accel''))
                    (accel_err (imu s)) (vib_def s) wk = (Inr va, wa)
          \<and> slot s' ''accel'' i = Some va
          \<and> gyro_gen pg (data (attr (objs sk) ''fs'')) (data (attr (objs sk) ''ref_gyro''))
                     (gyro_err (imu s)) wa = (Inr vg, wg)
          \<and> slot s' ''gyro'' i = Some vg
          \<and> (if gps (imu s)
              then \<exists>vp. gps_gen pg (data (attr (objs sk) ''ref_gps'')) (gps_err (imu s))
                            (data (attr (objs sk) ''ref_frame'')) wg = (Inr vp, wp)
                      \<and> slot s' ''gps'' i = Some vp
              else wp = wg \<and> slot s' ''gps'' i = slot s ''gps'' i)
          \<and> (if magnetometer (imu s)
              then \<exists>vm. mag_gen pg (data (attr (objs sk) ''ref_mag'')) (mag_err (imu s)) wp
                          = (Inr vm, wm)
                      \<and> slot s' ''mag'' i = Some vm
              else wm = wp \<and> slot s' ''mag'' i = slot s ''mag'' i)
          \<and> (case algo s of
                None \<Rightarrow>
                  (\<forall>nm. nm \<in> set per_trial_names \<and> nm \<notin> {''accel'', ''gyro'', ''gps'', ''mag''} \<longrightarrow>
                     slot s' nm i = slot s nm i)
              | Some a \<Rightarrow>
                  (\<exists>wr vs w2.
                      algo_run a (map (\<lambda>n. if supported_in_constant s (Name n) \<noteq> None
                                            then data (attr (objs sk) n)
                                            else Val (the (slot s' n i))) (input_names a)) wm
                        = (None, wr)
                    \<and> get_results a wr = (Inr vs, w2)
                    \<and> length vs = length (output_names a)
                    \<and> (\<forall>j < length vs.
                          output_names a ! j \<notin> set (drop (Suc j) (output_names a)) \<longrightarrow>
                          slot s' (output_names a ! j) i = Some (vs ! j))
                    \<and> (\<forall>nm. nm \<in> set per_trial_names
                            \<and> nm \<notin> {''accel'', ''gyro'', ''gps'', ''mag''} \<union> set (output_names a) \<longrightarrow>
                          slot s' nm i = slot s nm i)))"
    if "0 \<le> i \<and> i < sim_count s'" for i
  proof -
    from that c1 have "0 \<le> i" "i < sim_count s1" by simp_all
    from run_trials_written [OF s1 r this] obtain sk wk sk' wk' where
      pre: "run_trials pg (range0 i) (s1, w1) = (None, sk, wk)" and
      t: "trial pg i (sk, wk) = (None, sk', wk')" and
      e2: "\<forall>nm. slot s2 nm i = slot sk' nm i"
      by blast
    have ni: "i \<notin> set (range0 i)" by (simp add: range0_mem)
    note same = run_prefix_same [OF snd sc g pre]
    have old: "slot sk nm i = slot s nm i" if "nm \<in> set per_trial_names" for nm
      using same(6) [OF that ni] .
    have e: "slot s' nm i = slot sk' nm i" for nm using e2 by (simp add: s')
    have pt: "''gps'' \<in> set per_trial_names" "''mag'' \<in> set per_trial_names"
      by (simp_all add: per_trial_names_def)
    from trial_values [OF same(1) t] obtain va wa vg wg wp wm where
      v: "acc_gen pg (data (attr (objs sk) ''fs'')) (data (attr (objs sk) ''ref_accel''))
              (accel_err (imu sk)) (vib_def sk) wk = (Inr va, wa)"
         "slot sk' ''accel'' i = Some va"
         "gyro_gen pg (data (attr (objs sk) ''fs'')) (data (attr (objs sk) ''ref_gyro''))
               (gyro_err (imu sk)) wa = (Inr vg, wg)"
         "slot sk' ''gyro'' i = Some vg"
         "if gps (imu sk)
          then \<exists>vp. gps_gen pg (data (attr (objs sk) ''ref_gps'')) (gps_err (imu sk))
                      (data (attr (objs sk) ''ref_frame'')) wg = (Inr vp, wp)
                \<and> slot sk' ''gps'' i = Some vp
          else wp = wg \<and> slot sk' ''gps'' i = slot sk ''gps'' i"
         "if magnetometer (imu sk)
          then \<exists>vm. mag_gen pg (data (attr (objs sk) ''ref_mag'')) (mag_err (imu sk)) wp = (Inr vm, wm)
                \<and> slot sk' ''mag'' i = Some vm
          else wm = wp \<and> slot sk' ''mag'' i = slot sk ''mag'' i"
         "case algo sk of
          None \<Rightarrow> wk' = wm
            \<and> (\<forall>nm. nm \<notin> {''accel'', ''gyro'', ''gps'', ''mag''} \<longrightarrow> slot sk' nm i = slot sk nm i)
        | Some a \<Rightarrow>
            \<exists>wr vs. algo_run a (map (\<lambda>n. if supported_in_constant sk (Name n) \<noteq> None
                                           then data (attr (objs sk) n)
                                           else Val (the (slot sk' n i))) (input_names a)) wm
                       = (None, wr)
              \<and> get_results a wr = (Inr vs, wk')
              \<and> length vs = length (output_names a)
              \<and> (\<forall>j < length vs. output_names a ! j \<notin> set (drop (Suc j) (output_names a)) \<longrightarrow>
                    slot sk' (output_names a ! j) i = Some (vs ! j))
              \<and> (\<forall>nm. nm \<notin> {''accel'', ''gyro'', ''gps'', ''mag''} \<union> set (output_names a) \<longrightarrow>
                    slot sk' nm i = slot sk nm i)"
      by blast
    have 1: "acc_gen pg (data (attr (objs sk) ''fs'')) (data (attr (objs sk) ''ref_accel''))
                    (accel_err (imu s)) (vib_def s) wk = (Inr va, wa)"
      using v(1) by (simp add: same)
    have 2: "slot s' ''accel'' i = Some va" using v(2) by (simp add: e)
    have 3: "gyro_gen pg (data (attr (objs sk) ''fs'')) (data (attr (objs sk) ''ref_gyro''))
                     (gyro_err (imu s)) wa = (Inr vg, wg)"
      using v(3) by (simp add: same)
    have 4: "slot s' ''gyro'' i = Some vg" using v(4) by (simp add: e)
    have 5: "if gps (imu s)
              then \<exists>vp. gps_gen pg (data (attr (objs sk) ''ref_gps'')) (gps_err (imu s))
                            (data (attr (objs sk) ''ref_frame'')) wg = (Inr vp, wp)
                      \<and> slot s' ''gps'' i = Some vp
              else wp = wg \<and> slot s' ''gps'' i = slot s ''gps'' i"
      using v(5) unfolding same(2) e [symmetric] old [OF pt(1)] .
    have 6: "if magnetometer (imu s)
              then \<exists>vm. mag_gen pg (data (attr (objs sk) ''ref_mag'')) (mag_err (imu s)) wp
                          = (Inr vm, wm)
                      \<and> slot s' ''mag'' i = Some vm
              else wm = wp \<and> slot s' ''mag'' i = slot s ''mag'' i"
      using v(6) unfolding same(2) e [symmetric] old [OF pt(2)] .
    have 7: "case algo s of
                None \<Rightarrow>
                  (\<forall>nm. nm \<in> set per_trial_names \<and> nm \<notin> {''accel'', ''gyro'', ''gps'', ''mag''} \<longrightarrow>
                     slot s' nm i = slot s nm i)
              | Some a \<Rightarrow>
                  (\<exists>wr vs w2.
                      algo_run a (map (\<lambda>n. if supported_in_constant s (Name n) \<noteq> None
                                            then data (attr (objs sk) n)
                                            else Val (the (slot s' n i))) (input_names a)) wm
                        = (None, wr)
                    \<and> get_results a wr = (Inr vs, w2)
                    \<and> length vs = length (output_names a)
                    \<and> (\<forall>j < length vs.
                          output_names a ! j \<notin> set (drop (Suc j) (output_names a)) \<longrightarrow>
                          slot s' (output_names a ! j) i = Some (vs ! j))
                    \<and> (\<forall>nm. nm \<in> set per_trial_names
                            \<and> nm \<notin> {''accel'', ''gyro'', ''gps'', ''mag''} \<union> set (output_names a) \<longrightarrow>
                          slot s' nm i = slot s nm i))"
    proof (cases "algo s")
      case None
      with v(7) same(3) have "\<forall>nm. nm \<notin> {''accel'', ''gyro'', ''gps'', ''mag''} \<longrightarrow>
          slot sk' nm i = slot sk nm i" by simp
      with old have "\<forall>nm. nm \<in> set per_trial_names \<and> nm \<notin> {''accel'', ''gyro'', ''gps'', ''mag''} \<longrightarrow>
                     slot s' nm i = slot s nm i" by (simp add: e)
      with None show ?thesis by simp
    next
      case (Some a)
      with v(7) same(3) obtain wr vs where
        h: "algo_run a (map (\<lambda>n. if supported_in_constant sk (Name n) \<noteq> None
                                           then data (attr (objs sk) n)
                                           else Val (the (slot sk' n i))) (input_names a)) wm
                       = (None, wr)"
           "get_results a wr = (Inr vs, wk')"
           "length vs = length (output_names a)"
           "\<forall>j < length vs. output_names a ! j \<notin> set (drop (Suc j) (output_names a)) \<longrightarrow>
                    slot sk' (output_names a ! j) i = Some (vs ! j)"
           "\<forall>nm. nm \<notin> {''accel'', ''gyro'', ''gps'', ''mag''} \<union> set (output_names a) \<longrightarrow>
                    slot sk' nm i = slot sk nm i"
        by auto
      have m: "(\<lambda>n. if supported_in_constant sk (Name n) \<noteq> None then data (attr (objs sk) n)
                     else Val (the (slot sk' n i)))
             = (\<lambda>n. if supported_in_constant s (Name n) \<noteq> None then data (attr (objs sk) n)
                     else Val (the (slot s' n i)))"
        unfolding same(5) e ..
      from h(1) have a: "algo_run a (map (\<lambda>n. if supported_in_constant s (Name n) \<noteq> None
                                            then data (attr (objs sk) n)
                                            else Val (the (slot s' n i))) (input_names a)) wm
                        = (None, wr)" unfolding m .
      from h(4) have b: "\<forall>j < length vs.
                          output_names a ! j \<notin> set (drop (Suc j) (output_names a)) \<longrightarrow>
                          slot s' (output_names a ! j) i = Some (vs ! j)" by (simp add: e)
      from h(5) old have c: "\<forall>nm. nm \<in> set per_trial_names
                            \<and> nm \<notin> {''accel'', ''gyro'', ''gps'', ''mag''} \<union> set (output_names a) \<longrightarrow>
                          slot s' nm i = slot s nm i" by (simp add: e)
      from a h(2,3) b c have "\<exists>wr vs w2.
                      algo_run a (map (\<lambda>n. if supported_in_constant s (Name n) \<noteq> None
                                            then data (attr (objs sk) n)
                                            else Val (the (slot s' n i))) (input_names a)) wm
                        = (None, wr)
                    \<and> get_results a wr = (Inr vs, w2)
                    \<and> length vs = length (output_names a)
                    \<and> (\<forall>j < length vs.
                          output_names a ! j \<notin> set (drop (Suc j) (output_names a)) \<longrightarrow>
                          slot s' (output_names a ! j) i = Some (vs ! j))
                    \<and> (\<forall>nm. nm \<in> set per_trial_names
                            \<and> nm \<notin> {''accel'', ''gyro'', ''gps'', ''mag''} \<union> set (output_names a) \<longrightarrow>
                          slot s' nm i = slot s nm i)" by blast
      with Some show ?thesis by simp
    qed
    from sc g pre 1 2 3 4 5 6 7 show ?thesis by blast
  qed
  have fr: "slot s' nm i = slot s nm i"
    if "nm \<in> set per_trial_names \<and> (i < 0 \<or> sim_count s' \<le> i)" for nm i
  proof -
    from that c1 have "i \<notin> set (range0 (sim_count s1))" by (auto simp: range0_mem)
    from run_prefix_same(6) [OF snd sc g r _ this, of nm] that show ?thesis by (simp add: s')
  qed
  from c cnt have "\<exists>c. builtin_int m = Inr c \<and> sim_count s' = max 1 c" by blast
  with pop wr fr show ?thesis by blast
qed

subsection \<open>Runs of the example configuration\<close>

lemma set_item_other:
  "set_item n i v s = Inr s' \<Longrightarrow> n' \<noteq> n \<Longrightarrow> slot s' n' j = slot s n' j"
  by (auto simp: set_item_def slot_def split: option.splits payload.splits)

lemma sound_set_item:
  assumes "sound s" and "n \<in> set per_trial_names"
  shows "\<exists>s'. set_item n i v s = Inr s'"
proof -
  from assms obtain d m where "objs s n = Some d" "data d = Dict m"
    unfolding sound_def by blast
  then show ?thesis by (rule set_item_dict)
qed

lemma slot_get_item: "slot s n i = Some v \<Longrightarrow> get_item n i s = Inr v"
  by (auto simp: slot_def get_item_def payload_get_def split: option.splits payload.splits)

lemma ex_gen_reference:
  "\<exists>s'. gen_reference (ex_pathgen L) (s, w) = (None, s', w)"
  by (simp add: gen_reference_def ex_pathgen_def save_reference_def column0_def ex_rtn_def
      save_gps_ref_def save_mag_ref_def and_then_def)

lemma ex_accel_stage:
  assumes "sound s" and "w < L"
  shows "\<exists>s'. accel_stage (ex_pathgen L) i (s, w) = (None, s', Suc w)
           \<and> slot s' ''accel'' i = Some (Arr2 [[real w, 0, 0]])"
proof -
  from sound_set_item [OF assms(1), of "''accel''" i "Arr2 [[real w, 0, 0]]"]
  obtain s' where s': "set_item ''accel'' i (Arr2 [[real w, 0, 0]]) s = Inr s'"
    by (auto simp: per_trial_names_def)
  with assms(2) have "accel_stage (ex_pathgen L) i (s, w) = (None, s', Suc w)"
    by (simp add: accel_stage_def ex_pathgen_def store_gen_def)
  with set_item_grows(2) [OF s'] show ?thesis by blast
qed

lemma ex_accel_stage_fault:
  "L \<le> w \<Longrightarrow> accel_stage (ex_pathgen L) i (s, w) = (Some (ValueError ''sensor fault''), s, Suc w)"
  by (simp add: accel_stage_def ex_pathgen_def store_gen_def)

lemma ex_gyro_stage:
  assumes "sound s"
  shows "\<exists>s'. gyro_stage (ex_pathgen L) i (s, w) = (None, s', Suc w)
           \<and> slot s' ''gyro'' i = Some (Arr2 [[real w, 0, 0]])
           \<and> slot s' ''accel'' i = slot s ''accel'' i"
proof -
  from sound_set_item [OF assms(1), of "''gyro''" i "Arr2 [[real w, 0, 0]]"]
  obtain s' where s': "set_item ''gyro'' i (Arr2 [[real w, 0, 0]]) s = Inr s'"
    by (auto simp: per_trial_names_def)
  then have "gyro_stage (ex_pathgen L) i (s, w) = (None, s', Suc w)"
    by (simp add: gyro_stage_def ex_pathgen_def store_gen_def)
  with set_item_grows(2) [OF s'] set_item_other [OF s', of "''accel''" i] show ?thesis by auto
qed

lemma ex_algo_stage:
  assumes "sound s" and "algo s = Some (ex_algo [''gyro''] [''pos''])"
    and "slot s ''gyro'' i \<noteq> None"
  shows "\<exists>s'. algo_stage i (s, w) = (None, s', w) \<and> slot s' ''accel'' i = slot s ''accel'' i"
proof -
  from assms(1) obtain f0 where
    c: "supported_in_constant s = init_supported_in_constant (new_containers f0) (imu s)"
    unfolding sound_def by blast
  have it: "in_item (supported_in_constant s) ''gyro'' = Self_data_at ''gyro''"
    by (simp add: in_item_def c supported_in_constant_eq)
  from assms(1,2) it have
    i: "expr_items (algo_in_expr s) = Inr [Self_data_at ''gyro'']" and
    o: "expr_items (algo_out_expr s) = Inr [Self_data_at ''pos'']"
    by (simp_all add: sound_def ex_algo_def expr_items_def is_item_def)
  from assms(3) obtain v where "slot s ''gyro'' i = Some v" by auto
  from slot_get_item [OF this] have e: "eval_items s i [Self_data_at ''gyro''] = Inr [Val v]"
    by simp
  from sound_set_item [OF assms(1), of "''pos''" i "Arr1 [real w]"]
  obtain s' where s': "set_item ''pos'' i (Arr1 [real w]) s = Inr s'"
    by (auto simp: per_trial_names_def)
  from assms(2) i o e s' have "algo_stage i (s, w) = (None, s', w)"
    by (simp add: algo_stage_def ex_algo_def)
  with set_item_other [OF s', of "''accel''" i] show ?thesis by auto
qed

lemma ex_trial:
  assumes "sound s" and "\<not> gps (imu s)" and "\<not> magnetometer (imu s)"
    and "algo s = Some (ex_algo [''gyro''] [''pos''])" and "w < L"
  shows "\<exists>s'. trial (ex_pathgen L) i (s, w) = (None, s', w + 2)
           \<and> slot s' ''accel'' i = Some (Arr2 [[real w, 0, 0]])"
proof -
  from ex_accel_stage [OF assms(1,5)] obtain s1 where
    a: "accel_stage (ex_pathgen L) i (s, w) = (None, s1, Suc w)"
       "slot s1 ''accel'' i = Some (Arr2 [[real w, 0, 0]])" by blast
  note g1 = accel_stage_grows(1) [OF a(1)]
  have s1: "sound s1" using grows_sound [OF g1 assms(1)] .
  from ex_gyro_stage [OF s1] obtain s2 where
    b: "gyro_stage (ex_pathgen L) i (s1, Suc w) = (None, s2, Suc (Suc w))"
       "slot s2 ''gyro'' i = Some (Arr2 [[real (Suc w), 0, 0]])"
       "slot s2 ''accel'' i = slot s1 ''accel'' i" by blast
  note g2 = gyro_stage_grows(1) [OF b(1)]
  have s2: "sound s2" using grows_sound [OF g2 s1] .
  have f: "\<not> gps (imu s2)" "\<not> magnetometer (imu s2)" "algo s2 = Some (ex_algo [''gyro''] [''pos''])"
    using assms(2-4) by (simp_all add: grows_same [OF g2] grows_same [OF g1])
  from f(1) have c: "gps_stage (ex_pathgen L) i (s2, Suc (Suc w)) = (None, s2, Suc (Suc w))"
    by (simp add: gps_stage_def)
  from f(2) have d: "mag_stage (ex_pathgen L) i (s2, Suc (Suc w)) = (None, s2, Suc (Suc w))"
    by (simp add: mag_stage_def)
  from b(2) have "slot s2 ''gyro'' i \<noteq> None" by simp
  from ex_algo_stage [OF s2 f(3) this] obtain s3 where
    e: "algo_stage i (s2, Suc (Suc w)) = (None, s3, Suc (Suc w))"
       "slot s3 ''accel'' i = slot s2 ''accel'' i" by blast
  from a(1) b(1) c d e(1) have "trial (ex_pathgen L) i (s, w) = (None, s3, w + 2)"
    by (simp add: trial_def)
  with a(2) b(3) e(2) show ?thesis by simp
qed

lemma ex_run_trials:
  assumes "sound s" and "\<not> gps (imu s)" and "\<not> magnetometer (imu s)"
    and "algo s = Some (ex_algo [''gyro''] [''pos''])" and "w + 2 * length is \<le> L"
    and "distinct is"
  shows "\<exists>s'. run_trials (ex_pathgen L) is (s, w) = (None, s', w + 2 * length is)
           \<and> (\<forall>k < length is. slot s' ''accel'' (is ! k) = Some (Arr2 [[real (w + 2 * k), 0, 0]]))"
  using assms
proof (induction "is" arbitrary: s w)
  case Nil
  then show ?case by simp
next
  case (Cons i rest)
  from Cons.prems(5) have w: "w < L" by simp
  from ex_trial [OF Cons.prems(1-4) w] obtain s1 where
    t: "trial (ex_pathgen L) i (s, w) = (None, s1, w + 2)"
       "slot s1 ''accel'' i = Some (Arr2 [[real w, 0, 0]])" by blast
  note g = trial_grows(1) [OF Cons.prems(1) t(1)]
  have s1: "sound s1" using grows_sound [OF g Cons.prems(1)] .
  have f: "\<not> gps (imu s1)" "\<not> magnetometer (imu s1)" "algo s1 = Some (ex_algo [''gyro''] [''pos''])"
    using Cons.prems(2-4) by (simp_all add: grows_same [OF g])
  from Cons.prems(5,6) have p: "w + 2 + 2 * length rest \<le> L" "distinct rest" by simp_all
  from Cons.IH [OF s1 f p] obtain s' where
    r: "run_trials (ex_pathgen L) rest (s1, w + 2) = (None, s', w + 2 + 2 * length rest)"
       "\<forall>k < length rest. slot s' ''accel'' (rest ! k) = Some (Arr2 [[real (w + 2 + 2 * k), 0, 0]])"
    by blast
  from Cons.prems(6) have "i \<notin> set rest" by simp
  from grows_slot_outside [OF run_trials_grows(1) [OF s1 r(1)] this] t(2)
  have i: "slot s' ''accel'' i = Some (Arr2 [[real w, 0, 0]])" by simp
  have "slot s' ''accel'' ((i # rest) ! k) = Some (Arr2 [[real (w + 2 * k), 0, 0]])"
    if "k < length (i # rest)" for k
  proof (cases k)
    case 0
    with i show ?thesis by simp
  next
    case (Suc j)
    with that r(2) show ?thesis by (simp add: add.assoc)
  qed
  moreover from t(1) r(1) have "run_trials (ex_pathgen L) (i # rest) (s, w)
     = (None, s', w + 2 * length (i # rest))" by (simp add: add.assoc)
  ultimately show ?case by blast
qed

lemma ex_init_ok:
  "\<exists>s0. ex_init = Inr s0 \<and> sound s0 \<and> \<not> gps (imu s0) \<and> \<not> magnetometer (imu s0)
        \<and> algo s0 = Some (ex_algo [''gyro''] [''pos'']) \<and> \<not> sim_complete s0
        \<and> (\<forall>pg. reachable pg s0)"
proof -
  have acc: "accepts 100 (ex_imu False False) (ex_algo [''gyro''] [''pos''])"
    by (simp add: accepts_def ex_algo_def ex_imu_def supported_in_varying_eq supported_out_eq)
  have "\<exists>s. Sim_init [100, 10, 0] (ex_imu False False)
           (Arr2 [[34, 108, 0, 0, 0, 0, 0, 0, 0], [1, 0, 0, 0, 5, 0, 0, 10, 0]]) (Str ''flight'')
           (Str ''2g_random'') (Some (ex_algo [''gyro''] [''pos''])) = Inr s"
    by (rule Sim_init_ok [where ?f0.0 = 100 and rest = "[10, 0]"]) (simp_all add: acc)
  then obtain s0 where s0: "ex_init = Inr s0" by (auto simp: ex_init_def ex_waypoints_def)
  note d = Sim_init_InrD [OF s0 [unfolded ex_init_def]]
  from d have "imu s0 = ex_imu False False" "algo s0 = Some (ex_algo [''gyro''] [''pos''])"
    "\<not> sim_complete s0" by blast+
  moreover have "sound s0" using s0 [unfolded ex_init_def] by (rule Sim_init_sound)
  moreover have "reachable pg s0" for pg :: "(nat, unit) pathgen"
    using s0 [unfolded ex_init_def] by (rule reachable.constructed)
  ultimately show ?thesis using s0 by (intro exI [of _ s0]) (simp add: ex_imu_def)
qed

lemma range0_nth: "k < nat c \<Longrightarrow> range0 c ! k = int k"
  by (simp add: range0_def)

lemma range0_length [simp]: "length (range0 c) = nat c"
  by (simp add: range0_def)

lemma range0_distinct: "distinct (range0 c)"
  by (simp add: range0_def distinct_map)

lemma ex_Sim_run:
  assumes "sound s" and "\<not> gps (imu s)" and "\<not> magnetometer (imu s)"
    and "algo s = Some (ex_algo [''gyro''] [''pos''])"
    and "w + 2 * nat (max 1 (py_int n)) \<le> L"
  shows "\<exists>s'. Sim_run (ex_pathgen L) (Finite n) (s, w) = (None, s', w + 2 * nat (max 1 (py_int n)))
           \<and> (\<forall>k < nat (max 1 (py_int n)).
                 slot s' ''accel'' (int k) = Some (Arr2 [[real (w + 2 * k), 0, 0]]))"
proof -
  let ?c = "max 1 (py_int n)"
  let ?s0 = "s\<lparr>sim_count := max 1 (py_int n)\<rparr>"
  have s0: "sound ?s0" using assms(1) by (simp add: sound_sim_count)
  from ex_gen_reference obtain s1 where
    g: "gen_reference (ex_pathgen L) (?s0, w) = (None, s1, w)" by blast
  note fr = gen_reference_frame [OF g]
  then have e: "s1 = ?s0\<lparr>objs := objs s1\<rparr>" ..
  have s1: "sound s1" using gen_reference_sound [OF s0 g] .
  have f: "\<not> gps (imu s1)" "\<not> magnetometer (imu s1)" "algo s1 = Some (ex_algo [''gyro''] [''pos''])"
    "sim_count s1 = ?c"
    using assms(2-4) by (simp_all add: frame_same [OF e])
  from assms(5) have l: "w + 2 * length (range0 ?c) \<le> L" by simp
  from ex_run_trials [OF s1 f(1-3) l range0_distinct] obtain s2 where
    r: "run_trials (ex_pathgen L) (range0 ?c) (s1, w) = (None, s2, w + 2 * nat ?c)"
       "\<forall>k < nat ?c. slot s2 ''accel'' (range0 ?c ! k) = Some (Arr2 [[real (w + 2 * k), 0, 0]])"
    by auto
  from g r(1) f(4) have "Sim_run (ex_pathgen L) (Finite n) (s, w)
      = (None, s2\<lparr>sim_complete := True\<rparr>, w + 2 * nat ?c)"
    by (simp add: Sim_run_def set_sim_count_Finite)
  moreover from r(2) have "\<forall>k < nat ?c. slot (s2\<lparr>sim_complete := True\<rparr>) ''accel'' (int k)
      = Some (Arr2 [[real (w + 2 * k), 0, 0]])"
    by (simp add: range0_nth)
  ultimately show ?thesis by blast
qed

lemma range0_Cons: "1 \<le> c \<Longrightarrow> \<exists>rest. range0 c = 0 # rest"
  using range0_at [of 0 c] by (simp add: range0_def)

lemma ex_Sim_run_fault:
  assumes "L \<le> w"
  shows "\<exists>s1. gen_reference (ex_pathgen L) (s\<lparr>sim_count := max 1 (py_int n)\<rparr>, w) = (None, s1, w)
           \<and> trial (ex_pathgen L) 0 (s1, w) = (Some (ValueError ''sensor fault''), s1, Suc w)
           \<and> Sim_run (ex_pathgen L) (Finite n) (s, w)
               = (Some (ValueError ''sensor fault''), s1, Suc w)"
proof -
  let ?s0 = "s\<lparr>sim_count := max 1 (py_int n)\<rparr>"
  from ex_gen_reference obtain s1 where
    g: "gen_reference (ex_pathgen L) (?s0, w) = (None, s1, w)" by blast
  from gen_reference_frame [OF g] have e: "s1 = ?s0\<lparr>objs := objs s1\<rparr>" ..
  have "1 \<le> sim_count s1" by (simp add: frame_same [OF e])
  from range0_Cons [OF this] obtain rest where c: "range0 (sim_count s1) = 0 # rest" ..
  have t: "trial (ex_pathgen L) 0 (s1, w) = (Some (ValueError ''sensor fault''), s1, Suc w)"
    by (simp add: trial_def ex_accel_stage_fault [OF assms])
  with g c have "Sim_run (ex_pathgen L) (Finite n) (s, w)
      = (Some (ValueError ''sensor fault''), s1, Suc w)"
    by (simp add: Sim_run_def set_sim_count_Finite)
  with g t show ?thesis by blast
qed

text \<open>
  Claim C5 as stated fails for a second call: the accelerometer model of \<open>ex_pathgen 2\<close>
  raises from its third sensor call on. The first \<open>run(1)\<close> completes and sets the flag;
  in the second \<open>run(1)\<close> trial 0 raises, and the flag is still set afterwards.
\<close>

theorem flag_stays_set_counterexample:
  "\<exists>s0 s1 s2 e. ex_init = Inr s0
      \<and> Sim_run (ex_pathgen 2) (Finite (PyInt 1)) (s0, 0) = (None, s1, 2)
      \<and> Sim_run (ex_pathgen 2) (Finite (PyInt 1)) (s1, 2) = (Some e, s2, 3)
      \<and> trial (ex_pathgen 2) 0 (s2, 2) = (Some e, s2, 3)
      \<and> sim_complete s2"
proof -
  from ex_init_ok obtain s0 where s0: "ex_init = Inr s0" "sound s0" "\<not> gps (imu s0)"
    "\<not> magnetometer (imu s0)" "algo s0 = Some (ex_algo [''gyro''] [''pos''])" by blast
  have "0 + 2 * nat (max 1 (py_int (PyInt 1))) \<le> (2::nat)" by (simp add: py_int_def)
  from ex_Sim_run [OF s0(2-5) this] obtain s1 where
    r1: "Sim_run (ex_pathgen 2) (Finite (PyInt 1)) (s0, 0) = (None, s1, 2)"
    by (auto simp: py_int_def)
  have snd1: "sound s1" using Sim_run_sound [OF s0(2) r1] .
  from Sim_run_flag [OF s0(2) r1] have c1: "sim_complete s1" by simp
  from ex_Sim_run_fault [of 2 2 "PyInt 1" s1] obtain s2 where
    r2: "trial (ex_pathgen 2) 0 (s2, 2) = (Some (ValueError ''sensor fault''), s2, Suc 2)"
        "Sim_run (ex_pathgen 2) (Finite (PyInt 1)) (s1, 2) = (Some (ValueError ''sensor fault''), s2, Suc 2)"
    by auto
  from Sim_run_flag [OF snd1 r2(2)] c1 have "sim_complete s2" by simp
  with s0(1) r1 r2 show ?thesis by (simp add: numeral_3_eq_3) blast
qed

lemma Sim_run_same:
  assumes "sound s" and "Sim_run pg n (s, w) = (x, s', w')"
  shows "imu s' = imu s" and "algo s' = algo s"
    and "supported_in_constant s' = supported_in_constant s"
    and "supported_in_varying s' = supported_in_varying s"
    and "supported_out s' = supported_out s"
proof -
  note s0 = set_sim_count_sound [OF assms(1)]
  have c0: "imu sc = imu s \<and> algo sc = algo s
      \<and> supported_in_constant sc = supported_in_constant s
      \<and> supported_in_varying sc = supported_in_varying s
      \<and> supported_out sc = supported_out s" if "set_sim_count n s = Inr sc" for sc
    using that by (auto simp: set_sim_count_Inr)
  have "imu s' = imu s \<and> algo s' = algo s
      \<and> supported_in_constant s' = supported_in_constant s
      \<and> supported_in_varying s' = supported_in_varying s
      \<and> supported_out s' = supported_out s"
    using assms(2)
  proof (cases rule: Sim_run_cases)
    case (conversion e)
    then show ?thesis by simp
  next
    case (reference e sc)
    from gen_reference_frame [OF reference(1)] have e: "s' = sc\<lparr>objs := objs s'\<rparr>" ..
    show ?thesis using c0 [OF reference(3)] by (simp add: frame_same [OF e])
  next
    case (trial e s1 w1 sc)
    from gen_reference_frame [OF trial(1)] have e1: "s1 = sc\<lparr>objs := objs s1\<rparr>" ..
    from gen_reference_sound [OF s0 [OF trial(4)] trial(1)] have "sound s1" .
    note g = run_trials_grows(1) [OF this trial(2)]
    show ?thesis using c0 [OF trial(4)] by (simp add: grows_same [OF g] frame_same [OF e1])
  next
    case (complete s1 w1 s2 sc)
    from gen_reference_frame [OF complete(1)] have e1: "s1 = sc\<lparr>objs := objs s1\<rparr>" ..
    from gen_reference_sound [OF s0 [OF complete(5)] complete(1)] have "sound s1" .
    note g = run_trials_grows(1) [OF this complete(2)]
    show ?thesis using c0 [OF complete(5)]
      by (simp add: complete(3) grows_same [OF g] frame_same [OF e1])
  qed
  then show "imu s' = imu s" and "algo s' = algo s"
    and "supported_in_constant s' = supported_in_constant s"
    and "supported_in_varying s' = supported_in_varying s"
    and "supported_out s' = supported_out s"
    by simp_all
qed

text \<open>Claim C3 on the example object: before the run, and after \<open>run(2)\<close>.\<close>

theorem results_projection_witness:
  "\<exists>s0 s1. ex_init = Inr s0 \<and> fst (Sim_results s0) = Inr Map.empty
      \<and> Sim_run (ex_pathgen 4) (Finite (PyInt 2)) (s0, 0) = (None, s1, 4)
      \<and> fst (Sim_results s1)
          = Inr (supported_in_constant s1 ++ supported_in_varying s1
                   ++ (supported_out s1 |` {Name ''pos''}))"
proof -
  from ex_init_ok obtain s0 where s0: "ex_init = Inr s0" "sound s0" "\<not> gps (imu s0)"
    "\<not> magnetometer (imu s0)" "algo s0 = Some (ex_algo [''gyro''] [''pos''])"
    "\<not> sim_complete s0" "\<forall>pg. reachable pg s0" by blast
  from s0(7) have re0: "reachable (ex_pathgen 4) s0" by simp
  from results_projection [OF re0] s0(6) have 1: "fst (Sim_results s0) = Inr Map.empty" by auto
  have "0 + 2 * nat (max 1 (py_int (PyInt 2))) \<le> (4::nat)" by (simp add: py_int_def)
  from ex_Sim_run [OF s0(2-5) this] obtain s1 where
    r: "Sim_run (ex_pathgen 4) (Finite (PyInt 2)) (s0, 0) = (None, s1, 4)"
    by (auto simp: py_int_def)
  from re0 r have re1: "reachable (ex_pathgen 4) s1" by (rule reachable.after_run)
  from Sim_run_flag [OF s0(2) r] have c: "sim_complete s1" by simp
  from Sim_run_same(2) [OF s0(2) r] s0(5) have "declared_outputs s1 = {''pos''}"
    by (simp add: declared_outputs_def ex_algo_def)
  with results_projection [OF re1] c have
    "fst (Sim_results s1) = Inr (supported_in_constant s1 ++ supported_in_varying s1
                   ++ (supported_out s1 |` {Name ''pos''}))" by auto
  with s0(1) 1 r show ?thesis by blast
qed

text \<open>Claim C4 (amended) on the example object, for \<open>-2.5\<close>, \<open>0\<close>, \<open>0.9\<close> and \<open>3.7\<close>, and
  for \<open>nan\<close>, \<open>inf\<close> and \<open>-inf\<close>.\<close>

theorem run_count_clamped_witness:
  "\<exists>s0. ex_init = Inr s0
      \<and> Sim_run (ex_pathgen 9) (Finite (PyFloat (- 2.5))) (s0, 0) = Sim_run (ex_pathgen 9) (Finite (PyInt 1)) (s0, 0)
      \<and> sim_count (fst (snd (Sim_run (ex_pathgen 9) (Finite (PyFloat (- 2.5))) (s0, 0)))) = 1
      \<and> sim_count (fst (snd (Sim_run (ex_pathgen 9) (Finite (PyInt 0)) (s0, 0)))) = 1
      \<and> sim_count (fst (snd (Sim_run (ex_pathgen 9) (Finite (PyFloat 0.9)) (s0, 0)))) = 1
      \<and> sim_count (fst (snd (Sim_run (ex_pathgen 9) (Finite (PyFloat 3.7)) (s0, 0)))) = 3
      \<and> Sim_run (ex_pathgen 9) NaN (s0, 0)
          = (Some (ValueError ''cannot convert float NaN to integer''), s0, 0)
      \<and> Sim_run (ex_pathgen 9) PosInf (s0, 0)
          = (Some (OverflowError ''cannot convert float infinity to integer''), s0, 0)
      \<and> Sim_run (ex_pathgen 9) NegInf (s0, 0)
          = (Some (OverflowError ''cannot convert float infinity to integer''), s0, 0)"
proof -
  from ex_init_ok obtain s0 where s0: "ex_init = Inr s0" "\<forall>pg. reachable pg s0" by blast
  from s0(2) have re: "reachable (ex_pathgen 9) s0" by simp
  have f: "\<lfloor>3.7 :: real\<rfloor> = 3" by linarith
  from run_count_clamped [OF re, of "PyFloat (- 2.5)" 0 NaN]
       run_count_clamped [OF re, of "PyInt 0" 0 PosInf]
       run_count_clamped [OF re, of "PyFloat 0.9" 0 NegInf]
       run_count_clamped [OF re, of "PyFloat 3.7" 0 "Finite (PyInt 1)"]
       run_count_clamped [OF re, of "PyInt 1" 0 NaN] s0(1) f
  show ?thesis by (intro exI [of _ s0]) (simp add: num_value_def py_int_def builtin_int_def)
qed

text \<open>
  Claim C4 as stated fails for the float \<open>-inf\<close>: it is below 1, but \<open>int(num_times)\<close>
  raises \<open>OverflowError\<close> at line 224. After \<open>run(2)\<close> on the example object, \<open>run(-inf)\<close>
  raises and leaves the count at 2, where \<open>run(1)\<close> returns and leaves the count at 1.
\<close>

theorem run_rejects_negative_infinity_counterexample:
  "\<exists>s0 s1 s2. ex_init = Inr s0
      \<and> Sim_run (ex_pathgen 9) (Finite (PyInt 2)) (s0, 0) = (None, s1, 4)
      \<and> sim_count s1 = 2
      \<and> below_one NegInf
      \<and> Sim_run (ex_pathgen 9) NegInf (s1, 4)
          = (Some (OverflowError ''cannot convert float infinity to integer''), s1, 4)
      \<and> Sim_run (ex_pathgen 9) (Finite (PyInt 1)) (s1, 4) = (None, s2, 6)
      \<and> sim_count s2 = 1"
proof -
  let ?pg = "ex_pathgen 9"
  from ex_init_ok obtain s0 where s0: "ex_init = Inr s0" "sound s0" "\<not> gps (imu s0)"
    "\<not> magnetometer (imu s0)" "algo s0 = Some (ex_algo [''gyro''] [''pos''])" by blast
  have "0 + 2 * nat (max 1 (py_int (PyInt 2))) \<le> (9::nat)" by (simp add: py_int_def)
  from ex_Sim_run [OF s0(2-5) this] obtain s1 where
    r1: "Sim_run ?pg (Finite (PyInt 2)) (s0, 0) = (None, s1, 4)"
    by (auto simp: py_int_def)
  have snd1: "sound s1" using Sim_run_sound [OF s0(2) r1] .
  from Sim_run_sim_count [OF s0(2) r1, of 2] have c1: "sim_count s1 = 2"
    by (simp add: builtin_int_def py_int_def)
  have f1: "\<not> gps (imu s1)" "\<not> magnetometer (imu s1)" "algo s1 = Some (ex_algo [''gyro''] [''pos''])"
    using s0(3-5) by (simp_all add: Sim_run_same [OF s0(2) r1])
  have "4 + 2 * nat (max 1 (py_int (PyInt 1))) \<le> (9::nat)" by (simp add: py_int_def)
  from ex_Sim_run [OF snd1 f1 this] obtain s2 where
    r2: "Sim_run ?pg (Finite (PyInt 1)) (s1, 4) = (None, s2, 6)"
    by (auto simp: py_int_def)
  from Sim_run_sim_count [OF snd1 r2, of 1] have c2: "sim_count s2 = 1"
    by (simp add: builtin_int_def py_int_def)
  have r3: "Sim_run ?pg NegInf (s1, 4)
      = (Some (OverflowError ''cannot convert float infinity to integer''), s1, 4)"
    by (rule Sim_run_raises) (simp add: builtin_int_def)
  have "below_one NegInf" by (simp add: below_one_def)
  with s0(1) r1 c1 r2 c2 r3 show ?thesis by blast
qed

text \<open>Claim C5 (amended) on the example object: \<open>run(3)\<close> where trial 1 raises. The
  flag stays unset and trial 0 keeps its data.\<close>

theorem run_completion_flag_witness:
  "\<exists>s0 e s'. ex_init = Inr s0
      \<and> Sim_run (ex_pathgen 2) (Finite (PyInt 3)) (s0, 0) = (Some e, s', 3)
      \<and> \<not> sim_complete s' \<and> populated s' 0"
proof -
  let ?pg = "ex_pathgen 2"
  let ?e = "ValueError ''sensor fault''"
  from ex_init_ok obtain s0 where s0: "ex_init = Inr s0" "sound s0" "\<not> gps (imu s0)"
    "\<not> magnetometer (imu s0)" "algo s0 = Some (ex_algo [''gyro''] [''pos''])"
    "\<not> sim_complete s0" "\<forall>pg. reachable pg s0" by blast
  from s0(7) have re0: "reachable ?pg s0" by simp
  let ?s = "s0\<lparr>sim_count := 3\<rparr>"
  have snd0: "sound ?s" using s0(2) by (simp add: sound_sim_count)
  have sc: "set_sim_count (Finite (PyInt 3)) s0 = Inr ?s"
    by (simp add: set_sim_count_Finite py_int_def)
  from ex_gen_reference obtain s1 where g: "gen_reference ?pg (?s, 0) = (None, s1, 0)" by blast
  from gen_reference_frame [OF g] have e1: "s1 = ?s\<lparr>objs := objs s1\<rparr>" ..
  have snd1: "sound s1" using gen_reference_sound [OF snd0 g] .
  have f: "\<not> gps (imu s1)" "\<not> magnetometer (imu s1)" "algo s1 = Some (ex_algo [''gyro''] [''pos''])"
    "sim_count s1 = 3"
    using s0(3-5) by (simp_all add: frame_same [OF e1])
  from ex_trial [OF snd1 f(1-3), of 0 2 0] obtain s2 where
    t0: "trial ?pg 0 (s1, 0) = (None, s2, 2)" by auto
  have t1: "trial ?pg 1 (s2, 2) = (Some ?e, s2, 3)"
    by (simp add: trial_def ex_accel_stage_fault)
  have r3: "range0 3 = [0, 1, 2]" by (simp add: range0_def upt_rec)
  from g t0 t1 f(4) have r: "Sim_run ?pg (Finite (PyInt 3)) (s0, 0) = (Some ?e, s2, 3)"
    by (simp add: Sim_run_def r3 sc)
  note th = run_completion_flag [OF re0 r]
  from th s0(6) have nc: "\<not> sim_complete s2" by simp
  from th sc g obtain k sk wk where k: "0 \<le> k" "run_trials ?pg (range0 k) (s1, 0) = (None, sk, wk)"
    "trial ?pg k (sk, wk) = (Some ?e, s2, 3)"
    "\<forall>i. 0 \<le> i \<and> i < k \<longrightarrow> populated s2 i \<and> (\<forall>nm. slot s2 nm i = slot sk nm i)"
    by blast
  have "k \<noteq> 0"
  proof
    assume "k = 0"
    with k(2,3) t0 show False by (simp add: range0_def)
  qed
  with k(1,4) have "populated s2 0" by simp
  with s0(1) r nc show ?thesis by blast
qed

lemma ex_gps_stage:
  assumes "sound s" and "gps (imu s)"
  shows "\<exists>s'. gps_stage (ex_pathgen L) i (s, w) = (None, s', Suc w)
           \<and> slot s' ''gyro'' i = slot s ''gyro'' i"
proof -
  from sound_set_item [OF assms(1), of "''gps''" i "Arr2 [[real w, 0, 0, 0, 0, 0]]"]
  obtain s' where s': "set_item ''gps'' i (Arr2 [[real w, 0, 0, 0, 0, 0]]) s = Inr s'"
    by (auto simp: per_trial_names_def)
  with assms(2) have "gps_stage (ex_pathgen L) i (s, w) = (None, s', Suc w)"
    by (simp add: gps_stage_def ex_pathgen_def store_gen_def)
  with set_item_other [OF s', of "''gyro''" i] show ?thesis by auto
qed

lemma ex_mag_stage:
  assumes "sound s" and "magnetometer (imu s)"
  shows "\<exists>s'. mag_stage (ex_pathgen L) i (s, w) = (None, s', Suc w)
           \<and> slot s' ''gyro'' i = slot s ''gyro'' i"
proof -
  from sound_set_item [OF assms(1), of "''mag''" i "Arr2 [[real w, 0, 0]]"]
  obtain s' where s': "set_item ''mag'' i (Arr2 [[real w, 0, 0]]) s = Inr s'"
    by (auto simp: per_trial_names_def)
  with assms(2) have "mag_stage (ex_pathgen L) i (s, w) = (None, s', Suc w)"
    by (simp add: mag_stage_def ex_pathgen_def store_gen_def)
  with set_item_other [OF s', of "''gyro''" i] show ?thesis by auto
qed

lemma ex_trial_all:
  assumes "sound s" and "gps (imu s)" and "magnetometer (imu s)"
    and "algo s = Some (ex_algo [''gyro''] [''pos''])" and "w < L"
  shows "\<exists>s'. trial (ex_pathgen L) i (s, w) = (None, s', w + 4)"
proof -
  from ex_accel_stage [OF assms(1,5)] obtain s1 where
    a: "accel_stage (ex_pathgen L) i (s, w) = (None, s1, Suc w)" by blast
  note g1 = accel_stage_grows(1) [OF a]
  have s1: "sound s1" using grows_sound [OF g1 assms(1)] .
  from ex_gyro_stage [OF s1] obtain s2 where
    b: "gyro_stage (ex_pathgen L) i (s1, Suc w) = (None, s2, Suc (Suc w))"
       "slot s2 ''gyro'' i = Some (Arr2 [[real (Suc w), 0, 0]])" by blast
  note g2 = gyro_stage_grows(1) [OF b(1)]
  have s2: "sound s2" using grows_sound [OF g2 s1] .
  have f2: "gps (imu s2)" using assms(2) by (simp add: grows_same [OF g2] grows_same [OF g1])
  from ex_gps_stage [OF s2 f2] obtain s3 where
    c: "gps_stage (ex_pathgen L) i (s2, Suc (Suc w)) = (None, s3, Suc (Suc (Suc w)))"
       "slot s3 ''gyro'' i = slot s2 ''gyro'' i" by blast
  note g3 = gps_stage_grows(1) [OF c(1)]
  have s3: "sound s3" using grows_sound [OF g3 s2] .
  have f3: "magnetometer (imu s3)"
    using assms(3) by (simp add: grows_same [OF g3] grows_same [OF g2] grows_same [OF g1])
  from ex_mag_stage [OF s3 f3] obtain s4 where
    d: "mag_stage (ex_pathgen L) i (s3, Suc (Suc (Suc w))) = (None, s4, Suc (Suc (Suc (Suc w))))"
       "slot s4 ''gyro'' i = slot s3 ''gyro'' i" by blast
  note g4 = mag_stage_grows(1) [OF d(1)]
  have s4: "sound s4" using grows_sound [OF g4 s3] .
  have f4: "algo s4 = Some (ex_algo [''gyro''] [''pos''])"
    using assms(4)
    by (simp add: grows_same [OF g4] grows_same [OF g3] grows_same [OF g2] grows_same [OF g1])
  from b(2) c(2) d(2) have "slot s4 ''gyro'' i \<noteq> None" by simp
  from ex_algo_stage [OF s4 f4 this] obtain s5 where
    e: "algo_stage i (s4, Suc (Suc (Suc (Suc w)))) = (None, s5, Suc (Suc (Suc (Suc w))))"
    by blast
  from a b(1) c(1) d(1) e have "trial (ex_pathgen L) i (s, w) = (None, s5, w + 4)"
    by (simp add: trial_def)
  then show ?thesis ..
qed

lemma ex_run_trials_all:
  assumes "sound s" and "gps (imu s)" and "magnetometer (imu s)"
    and "algo s = Some (ex_algo [''gyro''] [''pos''])" and "w + 4 * length is \<le> L"
  shows "\<exists>s'. run_trials (ex_pathgen L) is (s, w) = (None, s', w + 4 * length is)"
  using assms
proof (induction "is" arbitrary: s w)
  case Nil
  then show ?case by simp
next
  case (Cons i rest)
  from Cons.prems(5) have w: "w < L" by simp
  from ex_trial_all [OF Cons.prems(1-4) w] obtain s1 where
    t: "trial (ex_pathgen L) i (s, w) = (None, s1, w + 4)" by blast
  note g = trial_grows(1) [OF Cons.prems(1) t]
  have s1: "sound s1" using grows_sound [OF g Cons.prems(1)] .
  have f: "gps (imu s1)" "magnetometer (imu s1)" "algo s1 = Some (ex_algo [''gyro''] [''pos''])"
    using Cons.prems(2-4) by (simp_all add: grows_same [OF g])
  from Cons.prems(5) have p: "w + 4 + 4 * length rest \<le> L" by simp
  from Cons.IH [OF s1 f p] obtain s' where
    r: "run_trials (ex_pathgen L) rest (s1, w + 4) = (None, s', w + 4 + 4 * length rest)"
    by blast
  from t r have "run_trials (ex_pathgen L) (i # rest) (s, w)
     = (None, s', w + 4 * length (i # rest))" by (simp add: add.assoc)
  then show ?case ..
qed

lemma ex_Sim_run_all:
  assumes "sound s" and "gps (imu s)" and "magnetometer (imu s)"
    and "algo s = Some (ex_algo [''gyro''] [''pos''])"
    and "w + 4 * nat (max 1 (py_int n)) \<le> L"
  shows "\<exists>s'. Sim_run (ex_pathgen L) (Finite n) (s, w) = (None, s', w + 4 * nat (max 1 (py_int n)))"
proof -
  let ?c = "max 1 (py_int n)"
  let ?s0 = "s\<lparr>sim_count := max 1 (py_int n)\<rparr>"
  have s0: "sound ?s0" using assms(1) by (simp add: sound_sim_count)
  from ex_gen_reference obtain s1 where
    g: "gen_reference (ex_pathgen L) (?s0, w) = (None, s1, w)" by blast
  note fr = gen_reference_frame [OF g]
  then have e: "s1 = ?s0\<lparr>objs := objs s1\<rparr>" ..
  have s1: "sound s1" using gen_reference_sound [OF s0 g] .
  have f: "gps (imu s1)" "magnetometer (imu s1)" "algo s1 = Some (ex_algo [''gyro''] [''pos''])"
    "sim_count s1 = ?c"
    using assms(2-4) by (simp_all add: frame_same [OF e])
  from assms(5) have l: "w + 4 * length (range0 ?c) \<le> L" by simp
  from ex_run_trials_all [OF s1 f(1-3) l] obtain s2 where
    r: "run_trials (ex_pathgen L) (range0 ?c) (s1, w) = (None, s2, w + 4 * nat ?c)"
    by auto
  from g r f(4) have "Sim_run (ex_pathgen L) (Finite n) (s, w)
      = (None, s2\<lparr>sim_complete := True\<rparr>, w + 4 * nat ?c)"
    by (simp add: Sim_run_def set_sim_count_Finite)
  then show ?thesis ..
qed

lemma ex_calls:
  "w < L \<Longrightarrow> acc_gen (ex_pathgen L) f r e v w = (Inr (Arr2 [[real w, 0, 0]]), Suc w)"
  "gyro_gen (ex_pathgen L) f r e' w = (Inr (Arr2 [[real w, 0, 0]]), Suc w)"
  "gps_gen (ex_pathgen L) r e' r' w = (Inr (Arr2 [[real w, 0, 0, 0, 0, 0]]), Suc w)"
  "mag_gen (ex_pathgen L) r e' w = (Inr (Arr2 [[real w, 0, 0]]), Suc w)"
  "algo_run (ex_algo ins outs) args w = (None, w)"
  "get_results (ex_algo ins outs) w = (Inr (map (\<lambda>n. Arr1 [real w]) outs), w)"
  "input_names (ex_algo ins outs) = ins" "output_names (ex_algo ins outs) = outs"
  by (simp_all add: ex_pathgen_def ex_algo_def)

lemma ex_prefix_world:
  assumes "sound s" and "gps (imu s)" and "magnetometer (imu s)"
    and "algo s = Some (ex_algo [''gyro''] [''pos''])"
    and "set_sim_count m s = Inr sc" and "gen_reference (ex_pathgen L) (sc, w) = (None, s1, w1)"
    and "run_trials (ex_pathgen L) (range0 i) (s1, w1) = (None, sk, wk)"
    and "w + 4 * nat i \<le> L"
  shows "wk = w + 4 * nat i"
proof -
  from ex_gen_reference [of L sc w] assms(6) have w1: "w1 = w" by auto
  have "run_trials (ex_pathgen L) [] (s1, w1) = (None, s1, w1)" by simp
  note same = run_prefix_same [OF assms(1,5,6) this]
  from assms(8) have "w + 4 * length (range0 i) \<le> L" by simp
  from ex_run_trials_all [OF same(1), of w "range0 i" L] this assms(2-4) same(2,3)
  obtain s' where "run_trials (ex_pathgen L) (range0 i) (s1, w) = (None, s', w + 4 * length (range0 i))"
    by auto
  with assms(7) w1 show ?thesis by simp
qed

lemma ex_entries:
  assumes "sound s" and "gps (imu s)" and "magnetometer (imu s)"
    and "algo s = Some (ex_algo [''gyro''] [''pos''])"
    and "w + 4 * nat i < L"
    and "\<exists>sc s1 w1 sk wk va wa vg wg wp wm.
            set_sim_count m s = Inr sc \<and> gen_reference (ex_pathgen L) (sc, w) = (None, s1, w1)
          \<and> run_trials (ex_pathgen L) (range0 i) (s1, w1) = (None, sk, wk)
          \<and> acc_gen (ex_pathgen L) (data (attr (objs sk) ''fs'')) (data (attr (objs sk) ''ref_accel''))
                    (accel_err (imu s)) (vib_def s) wk = (Inr va, wa)
          \<and> slot s' ''accel'' i = Some va
          \<and> gyro_gen (ex_pathgen L) (data (attr (objs sk) ''fs'')) (data (attr (objs sk) ''ref_gyro''))
                     (gyro_err (imu s)) wa = (Inr vg, wg)
          \<and> slot s' ''gyro'' i = Some vg
          \<and> (if gps (imu s)
              then \<exists>vp. gps_gen (ex_pathgen L) (data (attr (objs sk) ''ref_gps'')) (gps_err (imu s))
                            (data (attr (objs sk) ''ref_frame'')) wg = (Inr vp, wp)
                      \<and> slot s' ''gps'' i = Some vp
              else wp = wg \<and> slot s' ''gps'' i = slot s ''gps'' i)
          \<and> (if magnetometer (imu s)
              then \<exists>vm. mag_gen (ex_pathgen L) (data (attr (objs sk) ''ref_mag'')) (mag_err (imu s)) wp
                          = (Inr vm, wm)
                      \<and> slot s' ''mag'' i = Some vm
              else wm = wp \<and> slot s' ''mag'' i = slot s ''mag'' i)
          \<and> (case algo s of
                None \<Rightarrow>
                  (\<forall>nm. nm \<in> set per_trial_names \<and> nm \<notin> {''accel'', ''gyro'', ''gps'', ''mag''} \<longrightarrow>
                     slot s' nm i = slot s nm i)
              | Some a \<Rightarrow>
                  (\<exists>wr vs w2.
                      algo_run a (map (\<lambda>n. if supported_in_constant s (Name n) \<noteq> None
                                            then data (attr (objs sk) n)
                                            else Val (the (slot s' n i))) (input_names a)) wm
                        = (None, wr)
                    \<and> get_results a wr = (Inr vs, w2)
                    \<and> length vs = length (output_names a)
                    \<and> (\<forall>j < length vs.
                          output_names a ! j \<notin> set (drop (Suc j) (output_names a)) \<longrightarrow>
                          slot s' (output_names a ! j) i = Some (vs ! j))
                    \<and> (\<forall>nm. nm \<in> set per_trial_names
                            \<and> nm \<notin> {''accel'', ''gyro'', ''gps'', ''mag''} \<union> set (output_names a) \<longrightarrow>
                          slot s' nm i = slot s nm i)))"
  shows "slot s' ''accel'' i = Some (Arr2 [[real (w + 4 * nat i), 0, 0]])
       \<and> slot s' ''gyro'' i = Some (Arr2 [[real (w + 4 * nat i + 1), 0, 0]])
       \<and> slot s' ''gps'' i = Some (Arr2 [[real (w + 4 * nat i + 2), 0, 0, 0, 0, 0]])
       \<and> slot s' ''mag'' i = Some (Arr2 [[real (w + 4 * nat i + 3), 0, 0]])
       \<and> slot s' ''pos'' i = Some (Arr1 [real (w + 4 * nat i + 4)])"
proof -
  from assms(6) [unfolded assms(4) option.case if_P [OF assms(2)] if_P [OF assms(3)] ex_calls(7,8)]
  obtain sc s1 w1 sk wk va wa vg wg wp wm vp vm wr vs w2 where
    h: "set_sim_count m s = Inr sc" "gen_reference (ex_pathgen L) (sc, w) = (None, s1, w1)"
       "run_trials (ex_pathgen L) (range0 i) (s1, w1) = (None, sk, wk)"
    and a: "acc_gen (ex_pathgen L) (data (attr (objs sk) ''fs'')) (data (attr (objs sk) ''ref_accel''))
                    (accel_err (imu s)) (vib_def s) wk = (Inr va, wa)"
       "slot s' ''accel'' i = Some va"
    and g: "gyro_gen (ex_pathgen L) (data (attr (objs sk) ''fs'')) (data (attr (objs sk) ''ref_gyro''))
                     (gyro_err (imu s)) wa = (Inr vg, wg)"
       "slot s' ''gyro'' i = Some vg"
    and p: "gps_gen (ex_pathgen L) (data (attr (objs sk) ''ref_gps'')) (gps_err (imu s))
                            (data (attr (objs sk) ''ref_frame'')) wg = (Inr vp, wp)"
       "slot s' ''gps'' i = Some vp"
    and mm: "mag_gen (ex_pathgen L) (data (attr (objs sk) ''ref_mag'')) (mag_err (imu s)) wp
                          = (Inr vm, wm)"
       "slot s' ''mag'' i = Some vm"
    and al: "algo_run (ex_algo [''gyro''] [''pos''])
              (map (\<lambda>n. if supported_in_constant s (Name n) \<noteq> None
                                            then data (attr (objs sk) n)
                                            else Val (the (slot s' n i))) [''gyro'']) wm
                        = (None, wr)"
       "get_results (ex_algo [''gyro''] [''pos'']) wr = (Inr vs, w2)"
       "length vs = length [''pos'']"
       "\<forall>j < length vs. [''pos''] ! j \<notin> set (drop (Suc j) [''pos'']) \<longrightarrow>
                          slot s' ([''pos''] ! j) i = Some (vs ! j)"
    by blast
  from assms(5) have "w + 4 * nat i \<le> L" by simp
  from ex_prefix_world [OF assms(1-4) h this] have wk: "wk = w + 4 * nat i" .
  with assms(5) have lt: "wk < L" by simp
  from a(1) have 1: "va = Arr2 [[real wk, 0, 0]]" "wa = Suc wk" by (simp_all add: ex_calls(1) [OF lt])
  from g(1) have 2: "vg = Arr2 [[real wa, 0, 0]]" "wg = Suc wa" by (simp_all add: ex_calls)
  from p(1) have 3: "vp = Arr2 [[real wg, 0, 0, 0, 0, 0]]" "wp = Suc wg" by (simp_all add: ex_calls)
  from mm(1) have 4: "vm = Arr2 [[real wp, 0, 0]]" "wm = Suc wp" by (simp_all add: ex_calls)
  from al(1) have 5: "wr = wm" by (simp add: ex_calls)
  from al(2) have 6: "vs = [Arr1 [real wr]]" by (auto simp: ex_calls)
  from al(4) 6 have 7: "slot s' ''pos'' i = Some (Arr1 [real wr])" by simp
  from a(2) g(2) p(2) mm(2) 7 show ?thesis unfolding 1 2 3 4 5 wk by (simp add: algebra_simps)
qed

text \<open>Claim C8 on an object with GPS and magnetometer enabled: \<open>run(2)\<close>, then \<open>run(1)\<close>.
  Every generator of \<open>ex_pathgen\<close> returns the number of calls made so far, and the
  algorithm returns it as \<open>pos\<close>: the entries of trial 0 are replaced by those of the
  second run, the entries of trial 1 remain.\<close>

theorem rerun_overwrites_in_place_witness:
  "\<exists>s0 s1 s2.
      Sim_init [100, 10, 0] (ex_imu True True) ex_waypoints (Str ''flight'') (Str ''2g_random'')
          (Some (ex_algo [''gyro''] [''pos''])) = Inr s0
      \<and> Sim_run (ex_pathgen 20) (Finite (PyInt 2)) (s0, 0) = (None, s1, 8)
      \<and> Sim_run (ex_pathgen 20) (Finite (PyInt 1)) (s1, 8) = (None, s2, 12)
      \<and> sim_count s1 = 2 \<and> sim_count s2 = 1
      \<and> slot s1 ''accel'' 0 = Some (Arr2 [[0, 0, 0]]) \<and> slot s2 ''accel'' 0 = Some (Arr2 [[8, 0, 0]])
      \<and> slot s1 ''gyro'' 0 = Some (Arr2 [[1, 0, 0]]) \<and> slot s2 ''gyro'' 0 = Some (Arr2 [[9, 0, 0]])
      \<and> slot s1 ''gps'' 0 = Some (Arr2 [[2, 0, 0, 0, 0, 0]])
      \<and> slot s2 ''gps'' 0 = Some (Arr2 [[10, 0, 0, 0, 0, 0]])
      \<and> slot s1 ''mag'' 0 = Some (Arr2 [[3, 0, 0]]) \<and> slot s2 ''mag'' 0 = Some (Arr2 [[11, 0, 0]])
      \<and> slot s1 ''pos'' 0 = Some (Arr1 [4]) \<and> slot s2 ''pos'' 0 = Some (Arr1 [12])
      \<and> slot s1 ''accel'' 1 = Some (Arr2 [[4, 0, 0]]) \<and> slot s2 ''accel'' 1 = Some (Arr2 [[4, 0, 0]])
      \<and> slot s1 ''gps'' 1 = Some (Arr2 [[6, 0, 0, 0, 0, 0]])
      \<and> slot s2 ''gps'' 1 = Some (Arr2 [[6, 0, 0, 0, 0, 0]])
      \<and> slot s1 ''pos'' 1 = Some (Arr1 [8]) \<and> slot s2 ''pos'' 1 = Some (Arr1 [8])"
proof -
  let ?pg = "ex_pathgen 20"
  let ?a = "ex_algo [''gyro''] [''pos'']"
  have acc: "accepts 100 (ex_imu True True) ?a"
    by (simp add: accepts_def ex_algo_def ex_imu_def supported_in_varying_eq supported_out_eq)
  have "\<exists>s. Sim_init [100, 10, 0] (ex_imu True True)
           (Arr2 [[34, 108, 0, 0, 0, 0, 0, 0, 0], [1, 0, 0, 0, 5, 0, 0, 10, 0]]) (Str ''flight'')
           (Str ''2g_random'') (Some ?a) = Inr s"
    by (rule Sim_init_ok [where ?f0.0 = 100 and rest = "[10, 0]"]) (simp_all add: acc)
  then obtain s0 where s0: "Sim_init [100, 10, 0] (ex_imu True True) ex_waypoints (Str ''flight'')
          (Str ''2g_random'') (Some ?a) = Inr s0"
    by (auto simp: ex_waypoints_def)
  note d = Sim_init_InrD [OF s0]
  from d have f0: "gps (imu s0)" "magnetometer (imu s0)" "algo s0 = Some ?a"
    by (auto simp: ex_imu_def)
  have snd0: "sound s0" using s0 by (rule Sim_init_sound)
  have re0: "reachable ?pg s0" using s0 by (rule reachable.constructed)
  have "0 + 4 * nat (max 1 (py_int (PyInt 2))) \<le> (20::nat)" by (simp add: py_int_def)
  from ex_Sim_run_all [OF snd0 f0 this] obtain s1 where
    r1: "Sim_run ?pg (Finite (PyInt 2)) (s0, 0) = (None, s1, 8)"
    by (auto simp: py_int_def)
  have snd1: "sound s1" using Sim_run_sound [OF snd0 r1] .
  from re0 r1 have re1: "reachable ?pg s1" by (rule reachable.after_run)
  have f1: "gps (imu s1)" "magnetometer (imu s1)" "algo s1 = Some ?a"
    using f0 by (simp_all add: Sim_run_same [OF snd0 r1])
  have "8 + 4 * nat (max 1 (py_int (PyInt 1))) \<le> (20::nat)" by (simp add: py_int_def)
  from ex_Sim_run_all [OF snd1 f1 this] obtain s2 where
    r2: "Sim_run ?pg (Finite (PyInt 1)) (s1, 8) = (None, s2, 12)"
    by (auto simp: py_int_def)
  note th1 = rerun_overwrites_in_place [OF re0 r1]
  note th2 = rerun_overwrites_in_place [OF re1 r2]
  from th1 have c1: "sim_count s1 = 2" by (simp add: builtin_int_def py_int_def)
  from th2 have c2: "sim_count s2 = 1" by (simp add: builtin_int_def py_int_def)
  have i10: "0 \<le> (0::int) \<and> 0 < sim_count s1" and i11: "0 \<le> (1::int) \<and> 1 < sim_count s1"
    by (simp_all add: c1)
  have i20: "0 \<le> (0::int) \<and> 0 < sim_count s2" by (simp add: c2)
  note p10 = th1 [THEN conjunct2, THEN conjunct1, rule_format, OF i10, THEN conjunct2]
  note p11 = th1 [THEN conjunct2, THEN conjunct1, rule_format, OF i11, THEN conjunct2]
  note p20 = th2 [THEN conjunct2, THEN conjunct1, rule_format, OF i20, THEN conjunct2]
  have b0: "0 + 4 * nat 0 < (20::nat)" "0 + 4 * nat 1 < (20::nat)" "8 + 4 * nat 0 < (20::nat)"
    by simp_all
  note v10 = ex_entries [OF snd0 f0 b0(1) p10]
  note v11 = ex_entries [OF snd0 f0 b0(2) p11]
  note v20 = ex_entries [OF snd1 f1 b0(3) p20]
  have pt: "''accel'' \<in> set per_trial_names" "''gps'' \<in> set per_trial_names"
    "''pos'' \<in> set per_trial_names" by (simp_all add: per_trial_names_def)
  note fr = th2 [THEN conjunct2, THEN conjunct2, rule_format]
  have k: "slot s2 ''accel'' 1 = slot s1 ''accel'' 1" "slot s2 ''gps'' 1 = slot s1 ''gps'' 1"
    "slot s2 ''pos'' 1 = slot s1 ''pos'' 1"
    using fr [of "''accel''" 1] fr [of "''gps''" 1] fr [of "''pos''" 1] pt c2 by simp_all
  from v10 v11 v20 k s0 r1 r2 c1 c2 show ?thesis
    by (intro exI [of _ s0] exI [of _ s1] exI [of _ s2]) simp
qed

text \<open>Claim C9 for an array as \<open>env\<close>.\<close>

theorem no_vibration_model_witness:
  "\<exists>s0. Sim_init [100, 10, 0] (ex_imu False False) ex_waypoints (Str ''flight'')
            (Ndarray (Arr2 [[1, 0.5], [10, 0.25]])) (Some (ex_algo [''gyro''] [''pos''])) = Inr s0
      \<and> vib_def s0 = None
      \<and> Sim_run ((ex_pathgen 9)\<lparr>acc_gen := \<lambda>f r e v. acc_gen (ex_pathgen 9) f r e None\<rparr>)
            (Finite (PyInt 2)) (s0, 0)
        = Sim_run (ex_pathgen 9) (Finite (PyInt 2)) (s0, 0)"
proof -
  have acc: "accepts 100 (ex_imu False False) (ex_algo [''gyro''] [''pos''])"
    by (simp add: accepts_def ex_algo_def ex_imu_def supported_in_varying_eq supported_out_eq)
  have "\<exists>s. Sim_init [100, 10, 0] (ex_imu False False)
           (Arr2 [[34, 108, 0, 0, 0, 0, 0, 0, 0], [1, 0, 0, 0, 5, 0, 0, 10, 0]]) (Str ''flight'')
           (Ndarray (Arr2 [[1, 0.5], [10, 0.25]])) (Some (ex_algo [''gyro''] [''pos''])) = Inr s"
    by (rule Sim_init_ok [where ?f0.0 = 100 and rest = "[10, 0]"]) (simp_all add: acc)
  then obtain s0 where s0: "Sim_init [100, 10, 0] (ex_imu False False) ex_waypoints (Str ''flight'')
            (Ndarray (Arr2 [[1, 0.5], [10, 0.25]])) (Some (ex_algo [''gyro''] [''pos''])) = Inr s0"
    by (auto simp: ex_waypoints_def)
  then have re: "reachable (ex_pathgen 9) s0" by (rule reachable.constructed)
  from no_vibration_model [OF s0 re, of "Finite (PyInt 2)" 0] s0 show ?thesis by blast
qed

section \<open>Plotting: the trial selector\<close>

lemma scan_idx_fst: "fst (scan_idx cnt i xs) = map py_int xs"
  by (induction xs arbitrary: i) (simp_all add: case_prod_unfold)

lemma scan_idx_bad:
  "fst (snd (scan_idx cnt i xs)) = filter (\<lambda>v. cnt \<le> v \<or> v < 0) (map py_int xs)"
  by (induction xs arbitrary: i) (simp_all add: case_prod_unfold)

lemma scan_idx_prints:
  "length (snd (snd (scan_idx cnt i xs))) = length (filter (\<lambda>v. cnt \<le> v \<or> v < 0) (map py_int xs))"
  by (induction xs arbitrary: i) (simp_all add: case_prod_unfold)

lemma scan_idx_eq:
  "scan_idx cnt i xs =
     (map py_int xs, filter (\<lambda>v. cnt \<le> v \<or> v < 0) (map py_int xs), snd (snd (scan_idx cnt i xs)))"
  by (simp add: prod_eq_iff scan_idx_fst scan_idx_bad)

lemma remove_all_keep:
  "x \<notin> set bs \<Longrightarrow>
     remove_all bs (x # zs) = (case remove_all bs zs of Inl e \<Rightarrow> Inl e | Inr r \<Rightarrow> Inr (x # r))"
  by (induction bs arbitrary: zs) auto

lemma remove_all_filter:
  "remove_all (filter (\<lambda>v. \<not> P v) vs) vs = Inr (filter P vs)"
proof (induction vs)
  case Nil
  then show ?case by simp
next
  case (Cons x vs)
  show ?case
  proof (cases "P x")
    case True
    then have "x \<notin> set (filter (\<lambda>v. \<not> P v) vs)" by simp
    from remove_all_keep [OF this] Cons.IH True show ?thesis by simp
  next
    case False
    with Cons.IH show ?thesis by simp
  qed
qed

lemma check_mutable:
  assumes "as_sequence cnt sel = (True, xs)"
  shows "check_sim_idx cnt sel
       = (Inr (filter (\<lambda>j. 0 \<le> j \<and> j < cnt) (map py_int xs)), snd (snd (scan_idx cnt 0 xs)))"
proof -
  have "(\<lambda>v. \<not> (0 \<le> v \<and> v < cnt)) = (\<lambda>v. cnt \<le> v \<or> v < 0)" by auto
  with remove_all_filter [of "\<lambda>j. 0 \<le> j \<and> j < cnt" "map py_int xs"]
  have r: "remove_all (filter (\<lambda>v. cnt \<le> v \<or> v < 0) (map py_int xs)) (map py_int xs)
      = Inr (filter (\<lambda>j. 0 \<le> j \<and> j < cnt) (map py_int xs))" by simp
  have "check_sim_idx cnt sel
      = (remove_all (fst (snd (scan_idx cnt 0 xs))) (fst (scan_idx cnt 0 xs)),
         snd (snd (scan_idx cnt 0 xs)))"
    using assms by (simp add: check_sim_idx_def case_prod_unfold)
  with r show ?thesis by (simp add: scan_idx_fst scan_idx_bad)
qed

lemma py_int_PyInt: "py_int (PyInt n) = n"
  by (simp add: py_int_def)

lemma scan_idx_truncated:
  "scan_idx cnt i (map (\<lambda>v. PyInt (py_int v)) xs) = scan_idx cnt i xs"
  by (induction xs arbitrary: i) (simp_all add: py_int_PyInt case_prod_unfold)

lemma Sim_plot_mutable:
  assumes "as_sequence (sim_count s) sel = (True, xs)"
  shows "Sim_plot s what sel
       = (case plot_names s (filter (\<lambda>j. 0 \<le> j \<and> j < sim_count s) (map py_int xs)) what of
            (r, evs) \<Rightarrow> (r, snd (snd (scan_idx (sim_count s) 0 xs)) @ evs))"
  by (simp add: Sim_plot_def check_mutable [OF assms])

text \<open>A list selector, \<open>None\<close> (all trials) and an integer: the checks of lines 299 to
  314 never raise; the names are plotted for exactly the entries (converted by \<open>int\<close>)
  that lie in \<open>[0, sim_count)\<close>, in their order, after one printed line per entry outside
  it.\<close>

lemma plot_list_selector:
  "Sim_plot s what (Sel_list xs)
     = (case plot_names s (filter (\<lambda>j. 0 \<le> j \<and> j < sim_count s) (map py_int xs)) what of
          (r, evs) \<Rightarrow> (r, snd (snd (scan_idx (sim_count s) 0 xs)) @ evs))"
  "length (snd (snd (scan_idx (sim_count s) 0 xs)))
     = length (filter (\<lambda>j. \<not> (0 \<le> j \<and> j < sim_count s)) (map py_int xs))"
  "Sim_plot s what (Sel_int n)
     = (case plot_names s (filter (\<lambda>j. 0 \<le> j \<and> j < sim_count s) [n]) what of
          (r, evs) \<Rightarrow> (r, snd (snd (scan_idx (sim_count s) 0 [PyInt n])) @ evs))"
  "Sim_plot s what Sel_None = plot_names s (range0 (sim_count s)) what"
proof -
  show "Sim_plot s what (Sel_list xs)
     = (case plot_names s (filter (\<lambda>j. 0 \<le> j \<and> j < sim_count s) (map py_int xs)) what of
          (r, evs) \<Rightarrow> (r, snd (snd (scan_idx (sim_count s) 0 xs)) @ evs))"
    by (rule Sim_plot_mutable) (simp add: as_sequence_def)
  have "(\<lambda>j. \<not> (0 \<le> j \<and> j < sim_count s)) = (\<lambda>v. sim_count s \<le> v \<or> v < 0)" by auto
  then show "length (snd (snd (scan_idx (sim_count s) 0 xs)))
     = length (filter (\<lambda>j. \<not> (0 \<le> j \<and> j < sim_count s)) (map py_int xs))"
    by (simp add: scan_idx_prints)
  have "as_sequence (sim_count s) (Sel_int n) = (True, [PyInt n])" by (simp add: as_sequence_def)
  from Sim_plot_mutable [OF this, of what]
  show "Sim_plot s what (Sel_int n)
     = (case plot_names s (filter (\<lambda>j. 0 \<le> j \<and> j < sim_count s) [n]) what of
          (r, evs) \<Rightarrow> (r, snd (snd (scan_idx (sim_count s) 0 [PyInt n])) @ evs))"
    by (simp add: py_int_PyInt)
  let ?xs = "map PyInt (range0 (sim_count s))"
  have a: "as_sequence (sim_count s) Sel_None = (True, ?xs)" by (simp add: as_sequence_def)
  have m: "map py_int ?xs = range0 (sim_count s)" by (simp add: py_int_PyInt comp_def)
  have v: "filter (\<lambda>j. 0 \<le> j \<and> j < sim_count s) (range0 (sim_count s)) = range0 (sim_count s)"
    by (simp add: range0_mem)
  have "filter (\<lambda>v. sim_count s \<le> v \<or> v < 0) (range0 (sim_count s)) = []"
    by (auto simp: range0_mem filter_empty_conv)
  then have "length (snd (snd (scan_idx (sim_count s) 0 ?xs))) = 0"
    unfolding scan_idx_prints m by simp
  then have p: "snd (snd (scan_idx (sim_count s) 0 ?xs)) = []" by simp
  have m2: "py_int \<circ> PyInt = id" by (simp add: fun_eq_iff py_int_PyInt)
  from Sim_plot_mutable [OF a, of what] show "Sim_plot s what Sel_None = plot_names s (range0 (sim_count s)) what"
    by (simp add: m2 v p)
qed

text \<open>Claim C10. \<open>plot\<close> accepts a float trial selector, a single float or floats inside a
  list, although the interface declares integers: each value is truncated to an integer
  by \<open>int()\<close> before the range check. So plotting with a float gives what plotting with
  its truncation gives, a list of floats gives what the list of the truncated values
  gives, and the names are plotted for the truncated values that lie in
  \<open>[0, sim_count)\<close>. (Floats are finite reals here; \<open>int()\<close> rounds towards zero.)\<close>

theorem plot_truncates_float_selector:
  "Sim_plot s what (Sel_float x) = Sim_plot s what (Sel_int (py_int (PyFloat x)))
   \<and> Sim_plot s what (Sel_list xs) = Sim_plot s what (Sel_list (map (\<lambda>v. PyInt (py_int v)) xs))
   \<and> Sim_plot s what (Sel_float x)
       = (case plot_names s (filter (\<lambda>j. 0 \<le> j \<and> j < sim_count s) [py_int (PyFloat x)]) what of
            (r, evs) \<Rightarrow> (r, snd (snd (scan_idx (sim_count s) 0 [PyFloat x])) @ evs))
   \<and> Sim_plot s what (Sel_list xs)
       = (case plot_names s (filter (\<lambda>j. 0 \<le> j \<and> j < sim_count s) (map py_int xs)) what of
            (r, evs) \<Rightarrow> (r, snd (snd (scan_idx (sim_count s) 0 xs)) @ evs))"
proof (intro conjI)
  show "Sim_plot s what (Sel_float x) = Sim_plot s what (Sel_int (py_int (PyFloat x)))"
    by (simp add: Sim_plot_def check_sim_idx_def as_sequence_def py_int_PyInt)
  show "Sim_plot s what (Sel_list xs) = Sim_plot s what (Sel_list (map (\<lambda>v. PyInt (py_int v)) xs))"
    by (simp add: Sim_plot_def check_sim_idx_def as_sequence_def scan_idx_truncated)
  have "as_sequence (sim_count s) (Sel_float x) = (True, [PyInt (py_int (PyFloat x))])"
    by (simp add: as_sequence_def)
  from Sim_plot_mutable [OF this, of what]
  show "Sim_plot s what (Sel_float x)
       = (case plot_names s (filter (\<lambda>j. 0 \<le> j \<and> j < sim_count s) [py_int (PyFloat x)]) what of
            (r, evs) \<Rightarrow> (r, snd (snd (scan_idx (sim_count s) 0 [PyFloat x])) @ evs))"
    by (simp add: py_int_PyInt)
  show "Sim_plot s what (Sel_list xs)
       = (case plot_names s (filter (\<lambda>j. 0 \<le> j \<and> j < sim_count s) (map py_int xs)) what of
            (r, evs) \<Rightarrow> (r, snd (snd (scan_idx (sim_count s) 0 xs)) @ evs))"
    by (rule Sim_plot_mutable) (simp add: as_sequence_def)
qed

text \<open>Claim C6, evaluated on the code. The claim: the trial selector resolves to a sequence
  of indices (a sequence to itself), indices outside \<open>[0, sim_count)\<close> are dropped with a
  warning, the valid ones are rendered and nothing is raised. The docstring of \<open>plot\<close>
  allows ``an integer, or a list or tuple''. For a tuple with at least one element the
  assignment \<open>sim_idx[i] = int(sim_idx[i])\<close> of line 308 raises \<open>TypeError\<close> before any
  index is checked and before anything is rendered, whatever the indices are.\<close>

theorem plot_tuple_selector_raises:
  "xs \<noteq> [] \<Longrightarrow>
     Sim_plot s what (Sel_tuple xs)
       = (Some (TypeError ''tuple object does not support item assignment''), [])"
  by (simp add: Sim_plot_def check_sim_idx_def as_sequence_def)

subsection \<open>The static attributes of the containers\<close>

lemma static_init:
  assumes "Sim_init fs im wp mode env alg = Inr s"
  shows "static s"
proof -
  from Sim_init_InrD [OF assms] obtain f0 where o: "objs s = new_containers f0" by blast
  have "case new_containers f0 n of None \<Rightarrow> objs s n = None
        | Some d0 \<Rightarrow> (\<exists>p. objs s n = Some (d0\<lparr>data := p\<rparr>))" for n
  proof (cases "new_containers f0 n")
    case None
    with o show ?thesis by simp
  next
    case (Some d0)
    have "objs s n = Some (d0\<lparr>data := data d0\<rparr>)" using o Some by simp
    then have "\<exists>p. objs s n = Some (d0\<lparr>data := p\<rparr>)" by (rule exI)
    with Some show ?thesis by simp
  qed
  then show ?thesis unfolding static_def by blast
qed

lemma static_grows:
  assumes "grows I s s'" and "static s"
  shows "static s'"
proof -
  from assms(2) obtain f0 where
    f0: "\<forall>n. case new_containers f0 n of None \<Rightarrow> objs s n = None
          | Some d0 \<Rightarrow> (\<exists>p. objs s n = Some (d0\<lparr>data := p\<rparr>))"
    unfolding static_def by blast
  have "case new_containers f0 n of None \<Rightarrow> objs s' n = None
        | Some d0 \<Rightarrow> (\<exists>p. objs s' n = Some (d0\<lparr>data := p\<rparr>))" for n
  proof -
    from assms(1) have eg: "entry_grows I (objs s n) (objs s' n)" by (simp add: grows_def)
    show ?thesis
    proof (cases "new_containers f0 n")
      case None
      with spec [OF f0, of n] have "objs s n = None" by simp
      with eg have "objs s' n = None" unfolding entry_grows_def by auto
      with None show ?thesis by simp
    next
      case (Some d0)
      with spec [OF f0, of n] obtain p where p: "objs s n = Some (d0\<lparr>data := p\<rparr>)" by auto
      from eg p have "\<exists>p'. objs s' n = Some (d0\<lparr>data := p'\<rparr>)"
        unfolding entry_grows_def by (auto split: option.splits)
      with Some show ?thesis by simp
    qed
  qed
  then show ?thesis unfolding static_def by blast
qed

lemma nc_has:
  "n \<in> set [''time'', ''ref_pos'', ''ref_vel'', ''ref_att'', ''ref_accel'', ''ref_gyro'',
            ''gps_time'', ''ref_gps'', ''ref_mag''] \<Longrightarrow> new_containers f n \<noteq> None"
  by (auto simp: new_containers_def)

lemma static_set_data:
  assumes "static s" and "\<And>f. new_containers f n \<noteq> None"
  shows "static (set_data n v s)"
proof -
  from assms(1) obtain f0 where
    f0: "\<forall>k. case new_containers f0 k of None \<Rightarrow> objs s k = None
          | Some d0 \<Rightarrow> (\<exists>p. objs s k = Some (d0\<lparr>data := p\<rparr>))"
    unfolding static_def by blast
  from assms(2) obtain d0 where d0: "new_containers f0 n = Some d0" by auto
  with spec [OF f0, of n] obtain p where p: "objs s n = Some (d0\<lparr>data := p\<rparr>)" by auto
  have n: "objs (set_data n v s) n = Some (d0\<lparr>data := v\<rparr>)"
    by (simp add: set_data_def attr_def p)
  have "case new_containers f0 k of None \<Rightarrow> objs (set_data n v s) k = None
        | Some d0 \<Rightarrow> (\<exists>p. objs (set_data n v s) k = Some (d0\<lparr>data := p\<rparr>))" for k
  proof (cases "k = n")
    case True
    with d0 n show ?thesis by auto
  next
    case False
    then have e: "objs (set_data n v s) k = objs s k" by (simp add: set_data_def)
    show ?thesis unfolding e by (rule spec [OF f0])
  qed
  then show ?thesis unfolding static_def by blast
qed

lemma static_save_reference:
  assumes "static s" and "save_reference rtn s = (x, s')"
  shows "static s'"
proof -
  have sd: "static (set_data n v t)"
    if "static t" and "n \<in> set [''time'', ''ref_pos'', ''ref_vel'', ''ref_att'', ''ref_accel'',
            ''ref_gyro'', ''gps_time'', ''ref_gps'', ''ref_mag'']" for n v and t :: "('a, 'b) sim"
    using that(1) nc_has [OF that(2)] by (rule static_set_data)
  have g: "static t'" if "static t" and "save_gps_ref rtn t = (y, t')" for t t' :: "('a, 'b) sim" and y
    using that by (auto simp: save_gps_ref_def intro!: sd split: if_splits sum.splits)
  have m: "static t'" if "static t" and "save_mag_ref rtn t = (y, t')" for t t' :: "('a, 'b) sim" and y
    using that by (auto simp: save_mag_ref_def intro!: sd split: if_splits)
  show ?thesis
  proof (cases "column0 (rtn_nav rtn)")
    case (Inl e)
    with assms show ?thesis by (simp add: save_reference_def)
  next
    case (Inr t)
    let ?s6 = "set_data ''ref_gyro'' (Val (columns 4 7 (rtn_imu rtn)))
           (set_data ''ref_accel'' (Val (columns 1 4 (rtn_imu rtn)))
           (set_data ''ref_att'' (Val (columns 7 10 (rtn_nav rtn)))
           (set_data ''ref_vel'' (Val (columns 4 7 (rtn_nav rtn)))
           (set_data ''ref_pos'' (Val (columns 1 4 (rtn_nav rtn)))
           (set_data ''time'' (Val t) s)))))"
    have s6: "static ?s6" by (intro sd assms(1)) simp_all
    from assms(2) Inr have h: "and_then (save_gps_ref rtn ?s6) (save_mag_ref rtn) = (x, s')"
      by (simp add: save_reference_def)
    from h show ?thesis
    proof (rule and_then_cases)
      fix e assume "save_gps_ref rtn ?s6 = (Some e, s')"
      with s6 show ?thesis by (rule g)
    next
      fix st assume a: "save_gps_ref rtn ?s6 = (None, st)" and b: "save_mag_ref rtn st = (x, s')"
      from g [OF s6 a] b show ?thesis by (rule m)
    qed
  qed
qed

lemma static_gen_reference:
  assumes "static s" and "gen_reference pg (s, w) = (x, s', w')"
  shows "static s'"
  using assms static_save_reference [of s _ x s']
  by (auto simp: gen_reference_def split: prod.splits sum.splits)

lemma static_field: "static s \<Longrightarrow> static (s\<lparr>sim_count := c\<rparr>)" "static s \<Longrightarrow> static (s\<lparr>sim_complete := b\<rparr>)"
  "static s \<Longrightarrow> static (s\<lparr>res := r, supported_plot := p\<rparr>)"
  by (simp_all add: static_def cong: option.case_cong)

lemma static_Sim_run:
  assumes "sound s" and "static s" and "Sim_run pg n (s, w) = (x, s', w')"
  shows "static s'"
proof -
  note s0 = set_sim_count_sound [OF assms(1)]
  have t0: "static sc" if "set_sim_count n s = Inr sc" for sc
    using assms(2) that by (auto simp: set_sim_count_Inr static_field)
  from assms(3) show ?thesis
  proof (cases rule: Sim_run_cases)
    case (conversion e)
    with assms(2) show ?thesis by simp
  next
    case (reference e sc)
    from t0 [OF reference(3)] reference(1) show ?thesis by (rule static_gen_reference)
  next
    case (trial e s1 w1 sc)
    from t0 [OF trial(4)] trial(1) have t1: "static s1" by (rule static_gen_reference)
    from gen_reference_sound [OF s0 [OF trial(4)] trial(1)] have "sound s1" .
    from run_trials_grows(1) [OF this trial(2)] t1 show ?thesis by (rule static_grows)
  next
    case (complete s1 w1 s2 sc)
    from t0 [OF complete(5)] complete(1) have t1: "static s1" by (rule static_gen_reference)
    from gen_reference_sound [OF s0 [OF complete(5)] complete(1)] have "sound s1" .
    from run_trials_grows(1) [OF this complete(2)] t1 have "static s2" by (rule static_grows)
    then show ?thesis by (simp add: complete(3) static_field)
  qed
qed

lemma static_Sim_results:
  assumes "sound s" and "static s" and "Sim_results s = (x, s')"
  shows "static s'"
proof (cases "sim_complete s")
  case True
  from Sim_results_complete [OF assms(1) True] assms(3)
  have "\<exists>r p. s' = s\<lparr>res := r, supported_plot := p\<rparr>" by auto
  with assms(2) show ?thesis by (auto simp: static_field)
next
  case False
  with assms show ?thesis by (simp add: Sim_results_incomplete)
qed

lemma reachable_static: "reachable pg s \<Longrightarrow> static s"
proof (induction rule: reachable.induct)
  case (constructed fs im waypoints mode env algorithm s)
  then show ?case by (rule static_init)
next
  case (after_run s num_times w r s' w')
  from reachable_sound [OF after_run.hyps(1)] after_run.IH after_run.hyps(2)
  show ?case by (rule static_Sim_run)
next
  case (after_results s r s')
  from reachable_sound [OF after_results.hyps(1)] after_results.IH after_results.hyps(2)
  show ?case by (rule static_Sim_results)
qed

subsection \<open>What is rendered\<close>

lemma static_Some:
  assumes "static s" and "objs s n = Some d"
  shows "\<exists>f0 d0. new_containers f0 n = Some d0 \<and> d = d0\<lparr>data := data d\<rparr>"
proof -
  from assms(1) obtain f0 where
    f0: "\<forall>k. case new_containers f0 k of None \<Rightarrow> objs s k = None
          | Some d0 \<Rightarrow> (\<exists>p. objs s k = Some (d0\<lparr>data := p\<rparr>))"
    unfolding static_def by blast
  show ?thesis
  proof (cases "new_containers f0 n")
    case None
    with spec [OF f0, of n] assms(2) show ?thesis by simp
  next
    case (Some d0)
    with spec [OF f0, of n] assms(2) obtain p where "d = d0\<lparr>data := p\<rparr>" by auto
    then have "d = d0\<lparr>data := data d\<rparr>" by simp
    with Some show ?thesis by blast
  qed
qed

lemma static_name:
  assumes "sound s" and "static s" and "n \<in> set per_trial_names"
  shows "\<exists>f0. name (attr (objs s) n) = name (attr (new_containers f0) n)"
proof -
  from assms(1,3) obtain d where d: "objs s n = Some d" unfolding sound_def by blast
  from static_Some [OF assms(2) d] obtain f0 d0 where
    e: "new_containers f0 n = Some d0" "d = d0\<lparr>data := data d\<rparr>" by blast
  from e(2) have "name d = name d0" by (cases d0) (cases d, simp)
  with d e(1) have "name (attr (objs s) n) = name (attr (new_containers f0) n)"
    by (simp add: attr_def)
  then show ?thesis ..
qed

lemma static_trial_names:
  assumes "sound s" and "static s"
  shows "name (attr (objs s) ''av_gyro'') = ''av_gyro''"
    and "name (attr (objs s) ''av_accel'') = ''av_accel''"
    and "name (attr (objs s) ''av_t'') = ''av_t''"
    and "name (attr (objs s) ''gps'') = ''gps''"
  using static_name [OF assms, of "''av_gyro''"] static_name [OF assms, of "''av_accel''"]
    static_name [OF assms, of "''av_t''"] static_name [OF assms, of "''gps''"]
  by (auto simp: per_trial_names_def nc_name)

lemma nc_accel:
  "new_containers f ''accel''
     = Some (Sim_data_init ''accel'' ''accel measurements'' True False False ''on''
               (Some [''accel_x'', ''accel_y'', ''accel_z'']) None)"
  by (simp add: new_containers_def)

lemma plot_name_accel:
  assumes "sound s" and "static s" and "supported_plot s (Name ''accel'') \<noteq> None"
    and "slot s ''accel'' i = Some (Arr2 rows)"
  shows "plot_name s [i] ''accel'' = (None, [Figure (accel_figure s i rows)])"
proof -
  from assms(4) obtain d m where d: "objs s ''accel'' = Some d" "data d = Dict m" "m i = Some (Arr2 rows)"
    by (auto simp: slot_def split: option.splits payload.splits)
  from static_Some [OF assms(2) d(1)] obtain f0 d0 where
    e: "new_containers f0 ''accel'' = Some d0" "d = d0\<lparr>data := data d\<rparr>" by blast
  from e(1) have d0: "d0 = \<lparr>name = ''accel'', description = ''accel measurements'', plottable = True,
      logx = False, logy = False, grid = ''on'',
      legend = Some [''accel_x'', ''accel_y'', ''accel_z''], pre_func = None, data = Dict Map.empty\<rparr>"
    by (simp add: nc_accel Sim_data_init_on)
  have f: "name d = ''accel''" "plottable d" "\<not> logx d" "\<not> logy d" "grid d = ''on''"
    "legend d = Some [''accel_x'', ''accel_y'', ''accel_z'']" "pre_func d = None"
    by (subst e(2), simp add: d0)+
  from assms(1) obtain g where "supported_in_constant s = init_supported_in_constant (new_containers g) (imu s)"
    unfolding sound_def by blast
  then have c: "supported_in_constant s (Name ''accel'') = None"
    by (simp add: supported_in_constant_eq)
  have x: "trial_x_axis s ''accel'' = Inr (data (attr (objs s) ''time''))"
    by (simp add: trial_x_axis_def static_trial_names [OF assms(1,2)])
  have p: "Sim_data_plot d (data (attr (objs s) ''time'')) (Some [i])
             = (None, [Figure (accel_figure s i rows)])"
    by (simp add: Sim_data_plot_def plot_dict_def d(2,3) f payload_get_def plot_in_one_figure_def
        accel_figure_def)
  show ?thesis using assms(3) by (simp add: plot_name_def c x d(1) p)
qed

lemma results_plot_accel:
  assumes "sound s" and "sim_complete s" and "Sim_results s = (x, s')"
  shows "supported_plot s' (Name ''accel'') \<noteq> None" and "sim_count s' = sim_count s"
    and "objs s' = objs s"
proof -
  from assms(1) obtain f0 where
    r: "supported_in_varying s = init_supported_in_varying (new_containers f0) (imu s)"
       "supported_out s = init_supported_out (new_containers f0)"
    unfolding sound_def by blast
  have v: "supported_in_varying s (Name ''accel'') \<noteq> None"
    unfolding r supported_in_varying_eq by simp
  have o: "supported_out s (Name ''accel'') = None"
    unfolding r supported_out_eq by simp
  note c = Sim_results_complete [OF assms(1,2)]
  from c assms(3) have e: "s' = s\<lparr>res := res s', supported_plot := supported_plot s'\<rparr>" by auto
  from c assms(3) have "supported_plot s' (Name ''accel'')
      = (supported_in_constant s ++ supported_in_varying s
           ++ (supported_out s |` (Name ` declared_outputs s))) (Name ''accel'')" by auto
  also have "\<dots> \<noteq> None" using v o by (auto simp: map_add_def restrict_map_def split: option.splits)
  finally show "supported_plot s' (Name ''accel'') \<noteq> None" .
  show "sim_count s' = sim_count s" by (subst e) simp
  show "objs s' = objs s" by (subst e) simp
qed

lemma str_int_small: "str_int 0 = ''0''" "str_int 1 = ''1''"
  by code_simp+

lemma ex_plot_state:
  "\<exists>s0 s1 s2 r. ex_init = Inr s0
      \<and> Sim_run (ex_pathgen 2) (Finite (PyInt 1)) (s0, 0) = (None, s1, 2)
      \<and> Sim_results s1 = (Inr r, s2)
      \<and> sound s2 \<and> static s2 \<and> sim_count s2 = 1
      \<and> supported_plot s2 (Name ''accel'') \<noteq> None
      \<and> slot s2 ''accel'' 0 = Some (Arr2 [[0, 0, 0]])"
proof -
  let ?pg = "ex_pathgen 2"
  from ex_init_ok obtain s0 where s0: "ex_init = Inr s0" "sound s0" "\<not> gps (imu s0)"
    "\<not> magnetometer (imu s0)" "algo s0 = Some (ex_algo [''gyro''] [''pos''])"
    "\<forall>pg. reachable pg s0" by blast
  from s0(6) have re0: "reachable ?pg s0" by simp
  have "0 + 2 * nat (max 1 (py_int (PyInt 1))) \<le> (2::nat)" by (simp add: py_int_def)
  from ex_Sim_run [OF s0(2-5) this] obtain s1 where
    r1: "Sim_run ?pg (Finite (PyInt 1)) (s0, 0) = (None, s1, 2)" and
    v1: "\<forall>k < 1. slot s1 ''accel'' (int k) = Some (Arr2 [[real (2 * k), 0, 0]])"
    by (auto simp: py_int_def)
  from v1 [rule_format, of 0] have a: "slot s1 ''accel'' 0 = Some (Arr2 [[0, 0, 0]])" by simp
  have snd1: "sound s1" using Sim_run_sound [OF s0(2) r1] .
  from re0 r1 have re1: "reachable ?pg s1" by (rule reachable.after_run)
  from Sim_run_flag [OF s0(2) r1] have c1: "sim_complete s1" by simp
  from Sim_run_sim_count [OF s0(2) r1, of 1] have n1: "sim_count s1 = 1"
    by (simp add: py_int_def builtin_int_def)
  from Sim_results_complete [OF snd1 c1] obtain r s2 where r2: "Sim_results s1 = (Inr r, s2)"
    by blast
  from re1 r2 have re2: "reachable ?pg s2" by (rule reachable.after_results)
  note p = results_plot_accel [OF snd1 c1 r2]
  have "slot s2 ''accel'' 0 = slot s1 ''accel'' 0" by (simp add: slot_def p(3))
  with a p(1,2) n1 reachable_sound [OF re2] reachable_static [OF re2] s0(1) r1 r2
  show ?thesis by (intro exI [of _ s0] exI [of _ s1] exI [of _ s2] exI [of _ r]) simp
qed

lemma plot_accel_examples:
  assumes "sound s" and "static s" and "sim_count s = 1"
    and "supported_plot s (Name ''accel'') \<noteq> None"
    and "slot s ''accel'' 0 = Some (Arr2 rows)"
  shows "Sim_plot s [''accel''] (Sel_int 0) = (None, [Figure (accel_figure s 0 rows), Show])"
    and "Sim_plot s [''accel''] (Sel_list [PyInt 0, PyInt 1])
           = (None, [Print ''sim_idx[1] = 1 exceeds max simulation count: 1.'',
                     Figure (accel_figure s 0 rows), Show])"
    and "Sim_plot s [''accel''] (Sel_list [PyFloat (9 / 10), PyFloat (3 / 2)])
           = (None, [Print ''sim_idx[1] = 1 exceeds max simulation count: 1.'',
                     Figure (accel_figure s 0 rows), Show])"
    and "Sim_plot s [''accel''] Sel_None = (None, [Figure (accel_figure s 0 rows), Show])"
proof -
  note n = plot_name_accel [OF assms(1,2,4,5)]
  have t: "py_int (PyFloat (9 / 10)) = 0" "py_int (PyFloat (3 / 2)) = 1"
    by (simp_all add: py_int_def)
  show "Sim_plot s [''accel''] (Sel_int 0) = (None, [Figure (accel_figure s 0 rows), Show])"
    by (simp add: plot_list_selector(3) assms(3) n py_int_PyInt)
  show "Sim_plot s [''accel''] (Sel_list [PyInt 0, PyInt 1])
           = (None, [Print ''sim_idx[1] = 1 exceeds max simulation count: 1.'',
                     Figure (accel_figure s 0 rows), Show])"
    by (simp add: plot_list_selector(1) assms(3) n py_int_PyInt exceeds_msg_def str_int_small)
  show "Sim_plot s [''accel''] (Sel_list [PyFloat (9 / 10), PyFloat (3 / 2)])
           = (None, [Print ''sim_idx[1] = 1 exceeds max simulation count: 1.'',
                     Figure (accel_figure s 0 rows), Show])"
    by (simp add: plot_list_selector(1) assms(3) n t exceeds_msg_def str_int_small)
  have "range0 1 = [0]" by (simp add: range0_def)
  then show "Sim_plot s [''accel''] Sel_None = (None, [Figure (accel_figure s 0 rows), Show])"
    by (simp add: plot_list_selector(4) assms(3) n)
qed

text \<open>Claim C10 on the example object, after one trial and \<open>results\<close>: the selector
  \<open>0.9\<close> renders trial 0, and the list \<open>[0.9, 1.5]\<close> renders trial 0 after the warning for
  the entry truncated to 1.\<close>

theorem plot_truncates_float_selector_witness:
  "\<exists>s0 s1 s2 r. ex_init = Inr s0
      \<and> Sim_run (ex_pathgen 2) (Finite (PyInt 1)) (s0, 0) = (None, s1, 2)
      \<and> Sim_results s1 = (Inr r, s2)
      \<and> sim_count s2 = 1
      \<and> Sim_plot s2 [''accel''] (Sel_float (9 / 10))
          = (None, [Figure (accel_figure s2 0 [[0, 0, 0]]), Show])
      \<and> Sim_plot s2 [''accel''] (Sel_list [PyFloat (9 / 10), PyFloat (3 / 2)])
          = (None, [Print ''sim_idx[1] = 1 exceeds max simulation count: 1.'',
                    Figure (accel_figure s2 0 [[0, 0, 0]]), Show])"
proof -
  from ex_plot_state obtain s0 s1 s2 r where
    e: "ex_init = Inr s0" "Sim_run (ex_pathgen 2) (Finite (PyInt 1)) (s0, 0) = (None, s1, 2)"
       "Sim_results s1 = (Inr r, s2)" and
    p: "sound s2" "static s2" "sim_count s2 = 1" "supported_plot s2 (Name ''accel'') \<noteq> None"
       "slot s2 ''accel'' 0 = Some (Arr2 [[0, 0, 0]])" by blast
  note x = plot_accel_examples [OF p]
  have t: "py_int (PyFloat (9 / 10)) = 0" "py_int (PyFloat (3 / 2)) = 1"
    by (simp_all add: py_int_def)
  from plot_truncates_float_selector
    [of s2 "[''accel'']" "9 / 10" "[PyFloat (9 / 10), PyFloat (3 / 2)]"]
  have "Sim_plot s2 [''accel''] (Sel_float (9 / 10)) = Sim_plot s2 [''accel''] (Sel_int 0)"
    and "Sim_plot s2 [''accel''] (Sel_list [PyFloat (9 / 10), PyFloat (3 / 2)])
           = Sim_plot s2 [''accel''] (Sel_list [PyInt 0, PyInt 1])"
    by (simp_all add: t)
  with x(1,2) e p(3) show ?thesis by (intro exI [of _ s0] exI [of _ s1] exI [of _ s2] exI [of _ r]) simp
qed

text \<open>On the same object: the tuple \<open>(0, 1)\<close> raises, where the list \<open>[0, 1]\<close> drops the
  entry 1 with a warning and renders trial 0.\<close>

theorem plot_tuple_selector_raises_witness:
  "\<exists>s0 s1 s2 r. ex_init = Inr s0
      \<and> Sim_run (ex_pathgen 2) (Finite (PyInt 1)) (s0, 0) = (None, s1, 2)
      \<and> Sim_results s1 = (Inr r, s2)
      \<and> Sim_plot s2 [''accel''] (Sel_tuple [PyInt 0, PyInt 1])
          = (Some (TypeError ''tuple object does not support item assignment''), [])
      \<and> Sim_plot s2 [''accel''] (Sel_list [PyInt 0, PyInt 1])
          = (None, [Print ''sim_idx[1] = 1 exceeds max simulation count: 1.'',
                    Figure (accel_figure s2 0 [[0, 0, 0]]), Show])"
proof -
  from ex_plot_state obtain s0 s1 s2 r where
    e: "ex_init = Inr s0" "Sim_run (ex_pathgen 2) (Finite (PyInt 1)) (s0, 0) = (None, s1, 2)"
       "Sim_results s1 = (Inr r, s2)" and
    p: "sound s2" "static s2" "sim_count s2 = 1" "supported_plot s2 (Name ''accel'') \<noteq> None"
       "slot s2 ''accel'' 0 = Some (Arr2 [[0, 0, 0]])" by blast
  note x = plot_accel_examples [OF p]
  have "[PyInt 0, PyInt 1] \<noteq> []" by simp
  note plot_tuple_selector_raises [OF this, of s2 "[''accel'']"]
  with x(2) e show ?thesis by (intro exI [of _ s0] exI [of _ s1] exI [of _ s2] exI [of _ r]) simp
qed

end
